theory Spec2Isabelle
  imports Complex_Main "HOL-Library.Multiset"
begin

section \<open>Arrays, errors and loops\<close>

text \<open>
  The C++ code works on raw arrays (\<^verbatim>\<open>new T[n]\<close>) indexed by \<^verbatim>\<open>int\<close>. An array is
  modelled as a list of slots; a slot is \<open>None\<close> until it has been written, as the memory
  returned by \<^verbatim>\<open>new T[n]\<close> is indeterminate. Every access is checked: an index outside the
  array, the use of a slot that was never written and an allocation of negative size are
  reported as an error value, so that whatever is undefined behaviour in C++ is a visible
  branch of the model. A call of \<^verbatim>\<open>exit(1)\<close> is the error \<open>ConfigError\<close>.

  C++ \<^verbatim>\<open>int\<close> is modelled by \<open>int\<close>; the array sizes computed from the input files are
  checked against \<^verbatim>\<open>INT_MAX\<close>. The build-time type \<^verbatim>\<open>real\<close> (float or double) is modelled by
  the exact reals.
\<close>

datatype error =
    ConfigError string
  | OutOfBounds int nat
  | Uninitialised int
  | BadAlloc int
  | IntOverflow int
  | MissingInput

type_synonym 'a array = "'a option list"

definition bnd :: "error + 'a \<Rightarrow> ('a \<Rightarrow> error + 'b) \<Rightarrow> error + 'b" where
  "bnd r f = (case r of Inl e \<Rightarrow> Inl e | Inr v \<Rightarrow> f v)"

definition new_array :: "int \<Rightarrow> error + 'a array" where
  "new_array n = (if n < 0 then Inl (BadAlloc n) else Inr (replicate (nat n) None))"

definition in_bounds :: "'a list \<Rightarrow> int \<Rightarrow> bool" where
  "in_bounds a i \<longleftrightarrow> 0 \<le> i \<and> i < int (length a)"

text \<open>\<open>cell\<close> fetches a slot as it is (a plain copy of a value that is not inspected),
  \<open>rd\<close> fetches a value that the program goes on to use.\<close>

definition cell :: "'a array \<Rightarrow> int \<Rightarrow> error + 'a option" where
  "cell a i = (if in_bounds a i then Inr (a ! nat i) else Inl (OutOfBounds i (length a)))"

definition rd :: "'a array \<Rightarrow> int \<Rightarrow> error + 'a" where
  "rd a i = bnd (cell a i) (\<lambda>c. case c of None \<Rightarrow> Inl (Uninitialised i) | Some v \<Rightarrow> Inr v)"

definition wr_cell :: "'a array \<Rightarrow> int \<Rightarrow> 'a option \<Rightarrow> error + 'a array" where
  "wr_cell a i c = (if in_bounds a i then Inr (a[nat i := c]) else Inl (OutOfBounds i (length a)))"

definition wr :: "'a array \<Rightarrow> int \<Rightarrow> 'a \<Rightarrow> error + 'a array" where
  "wr a i v = wr_cell a i (Some v)"

text \<open>\<^verbatim>\<open>for (int i = lo; i < n; ++i) body\<close>, with the variables the body changes as the
  state; the loop ends at the first error. \<open>for_loop2\<close> is the same loop with \<^verbatim>\<open>i += 2\<close>.\<close>

function for_loop :: "int \<Rightarrow> int \<Rightarrow> (int \<Rightarrow> 's \<Rightarrow> error + 's) \<Rightarrow> 's \<Rightarrow> error + 's" where
  "for_loop i n body s =
     (if i < n then (case body i s of Inl e \<Rightarrow> Inl e | Inr s' \<Rightarrow> for_loop (i + 1) n body s')
      else Inr s)"
  by pat_completeness auto
termination
  by (relation "measure (\<lambda>(i, n, body, s). nat (n - i))") auto

function for_loop2 :: "int \<Rightarrow> int \<Rightarrow> (int \<Rightarrow> 's \<Rightarrow> error + 's) \<Rightarrow> 's \<Rightarrow> error + 's" where
  "for_loop2 i n body s =
     (if i < n then (case body i s of Inl e \<Rightarrow> Inl e | Inr s' \<Rightarrow> for_loop2 (i + 2) n body s')
      else Inr s)"
  by pat_completeness auto
termination
  by (relation "measure (\<lambda>(i, n, body, s). nat (n - i))") auto

declare for_loop.simps [simp del] for_loop2.simps [simp del]

definition INT_MAX :: int where
  "INT_MAX = 2147483647"

text \<open>An \<^verbatim>\<open>int\<close> product of sizes: signed overflow is undefined in C++.\<close>

definition checked_int :: "int \<Rightarrow> error + int" where
  "checked_int v = (if v < - INT_MAX - 1 \<or> INT_MAX < v then Inl (IntOverflow v) else Inr v)"

text \<open>The implicit conversion of a \<^verbatim>\<open>real\<close> to \<^verbatim>\<open>int\<close> drops the fractional part. (The
  conversion of a value outside the range of \<^verbatim>\<open>int\<close> is undefined in C++; nothing below
  depends on such a value.)\<close>

definition real_to_int :: "real \<Rightarrow> int" where
  "real_to_int v = (if 0 \<le> v then \<lfloor>v\<rfloor> else \<lceil>v\<rceil>)"

section \<open>Random numbers\<close>

text \<open>
  The generator \<^verbatim>\<open>std::mt19937\<close> is a member of the model, consumed in sequence. It is
  modelled by the values its distributions are going to return: \<open>int_draws\<close> for
  \<^verbatim>\<open>uniform_int_distribution<int>(0, INT_MAX)\<close>, whose values are not negative, and
  \<open>real_draws\<close>, in the unit interval, from which \<^verbatim>\<open>uniform_real_distribution<real>(a, b)\<close>
  returns \<open>a + (b - a) * u\<close>.
\<close>

record generator =
  int_draws :: "nat \<Rightarrow> nat"
  real_draws :: "nat \<Rightarrow> real"

definition rand_int :: "generator \<Rightarrow> int \<times> generator" where
  "rand_int g = (int (int_draws g 0), g\<lparr>int_draws := (\<lambda>n. int_draws g (Suc n))\<rparr>)"

definition uniform_real :: "real \<Rightarrow> real \<Rightarrow> generator \<Rightarrow> real \<times> generator" where
  "uniform_real a b g =
     (a + (b - a) * real_draws g 0, g\<lparr>real_draws := (\<lambda>n. real_draws g (Suc n))\<rparr>)"

definition create_random_numbers ::
  "int \<Rightarrow> int \<Rightarrow> int array \<Rightarrow> generator \<Rightarrow> error + (int array \<times> generator)" where
  "create_random_numbers max_value total_number random_numbers generator =
     bnd (new_array max_value) (\<lambda>permuted_numbers.
     bnd (for_loop 0 max_value (\<lambda>i p. wr p i i) permuted_numbers) (\<lambda>permuted_numbers.
     bnd (for_loop 0 max_value
            (\<lambda>i (p, g).
               case rand_int g of (r, g') \<Rightarrow>
                 let j = r mod (max_value - i) + i in
                 bnd (rd p i) (\<lambda>temp.
                 bnd (rd p j) (\<lambda>pj.
                 bnd (wr p i pj) (\<lambda>p.
                 bnd (wr p j temp) (\<lambda>p. Inr (p, g'))))))
            (permuted_numbers, generator)) (\<lambda>(permuted_numbers, generator).
     bnd (for_loop 0 total_number
            (\<lambda>i out. bnd (rd permuted_numbers i) (\<lambda>v. wr out i v))
            random_numbers) (\<lambda>random_numbers.
     Inr (random_numbers, generator)))))"

definition specify_vacancies ::
  "int \<Rightarrow> int array \<Rightarrow> int \<Rightarrow> generator \<Rightarrow> error + (int array \<times> generator)" where
  "specify_vacancies number_of_vacancies is_vacancy number_of_atoms_pristine generator =
     bnd (new_array number_of_vacancies) (\<lambda>vacancy_indices.
     bnd (create_random_numbers number_of_atoms_pristine number_of_vacancies
            vacancy_indices generator) (\<lambda>(vacancy_indices, generator).
     bnd (for_loop 0 number_of_atoms_pristine (\<lambda>n a. wr a n 0) is_vacancy) (\<lambda>is_vacancy.
     bnd (for_loop 0 number_of_vacancies
            (\<lambda>n a. bnd (rd vacancy_indices n) (\<lambda>v. wr a v 1)) is_vacancy) (\<lambda>is_vacancy.
     Inr (is_vacancy, generator)))))"

definition find_new_atom_index :: "int array \<Rightarrow> int array \<Rightarrow> int \<Rightarrow> error + int array" where
  "find_new_atom_index is_vacancy new_atom_index number_of_atoms_pristine =
     bnd (for_loop 0 number_of_atoms_pristine
            (\<lambda>n (a, count).
               bnd (rd is_vacancy n) (\<lambda>v.
               if v = 0 then bnd (wr a n count) (\<lambda>a. Inr (a, count + 1))
               else Inr (a, count)))
            (new_atom_index, 0)) (\<lambda>(new_atom_index, count).
     Inr new_atom_index)"

section \<open>Run parameters\<close>

text \<open>The scalar members of \<^verbatim>\<open>Model\<close> that \<^verbatim>\<open>initialize_parameters\<close> reads from
  \<^verbatim>\<open>para.in\<close>, and the checks of \<^verbatim>\<open>verify_parameters\<close> in the order of the source.\<close>

record parameters =
  use_lattice_model :: bool
  has_anderson_disorder :: bool
  anderson_disorder_strength :: real
  has_charged_impurities :: bool
  number_of_charged_impurities :: int
  charged_impurity_strength :: real
  charged_impurity_range :: real
  has_vacancy_disorder :: bool
  number_of_vacancies :: int
  calculate_vac :: bool
  calculate_msd :: bool
  calculate_spin :: bool
  requires_time :: bool
  number_of_random_vectors :: int
  number_of_moments :: int
  energy_max :: real

definition fatal_if :: "bool \<Rightarrow> string \<Rightarrow> error + unit" where
  "fatal_if c msg = (if c then Inl (ConfigError msg) else Inr ())"

definition verify_parameters :: "parameters \<Rightarrow> error + parameters" where
  "verify_parameters p0 =
     (let p = (if calculate_vac p0 \<or> calculate_msd p0 \<or> calculate_spin p0
               then p0\<lparr>requires_time := True\<rparr> else p0) in
      bnd (if use_lattice_model p then
             bnd (fatal_if (calculate_spin p)
                    ''Error: lattice model does not support spin calculations yet'') (\<lambda>_.
             fatal_if (has_vacancy_disorder p \<and> number_of_vacancies p \<le> 0)
                    ''Error: number of vacancies should > 0'')
           else
             bnd (fatal_if (has_anderson_disorder p)
                    ''Error: General model does not allowed to add Anderson disorder'') (\<lambda>_.
             bnd (fatal_if (has_vacancy_disorder p)
                    ''Error: General model does not allowed to add vacancy disorder'') (\<lambda>_.
             fatal_if (has_charged_impurities p)
                    ''Error: General model does not allowed to add charged impurities''))) (\<lambda>_.
      bnd (fatal_if (calculate_spin p \<and> calculate_vac p)
             ''Error: spin and VAC cannot be calculated together'') (\<lambda>_.
      bnd (fatal_if (calculate_spin p \<and> calculate_msd p)
             ''Error: spin and MSD cannot be calculated together'') (\<lambda>_.
      bnd (fatal_if (number_of_random_vectors p \<le> 0)
             ''Error: Number of random vectors should > 0'') (\<lambda>_.
      bnd (fatal_if (number_of_moments p \<le> 0)
             ''Error: Number of moments should > 0'') (\<lambda>_.
      bnd (fatal_if (energy_max p \<le> 0)
             ''Error: Energy maximum should > 0'') (\<lambda>_.
      Inr p)))))))"

section \<open>The Hamiltonian\<close>

text \<open>The array members of \<^verbatim>\<open>Model\<close>. The members \<^verbatim>\<open>x\<close>, \<^verbatim>\<open>y\<close> and \<^verbatim>\<open>z\<close> are
  \<open>x_atom\<close>, \<open>y_atom\<close> and \<open>z_atom\<close> here.\<close>

record model =
  number_of_atoms :: int
  max_neighbor :: int
  number_of_pairs :: int
  neighbor_number :: "int array"
  neighbor_list :: "int array"
  hopping_real :: "real array"
  hopping_imag :: "real array"
  xx :: "real array"
  potential :: "real array"
  x_atom :: "real array"
  y_atom :: "real array"
  z_atom :: "real array"
  pbc :: "int list"
  box_length :: "real list"
  volume :: real

definition add_anderson_disorder ::
  "parameters \<Rightarrow> model \<Rightarrow> generator \<Rightarrow> error + (model \<times> generator)" where
  "add_anderson_disorder p mdl generator =
     (let W2 = anderson_disorder_strength p * 0.5 in
      bnd (for_loop 0 (number_of_atoms mdl)
             (\<lambda>n (pot, g). case uniform_real (- W2) W2 g of (v, g') \<Rightarrow>
                bnd (wr pot n v) (\<lambda>pot. Inr (pot, g')))
             (potential mdl, generator)) (\<lambda>(pot, generator).
      Inr (mdl\<lparr>potential := pot\<rparr>, generator)))"

subsection \<open>Vacancies\<close>

text \<open>The body of the loop over the neighbours \<open>m\<close> of a surviving atom \<open>n\<close>
  (lines 164 to 177 of \<^verbatim>\<open>add_vacancies\<close>); \<open>count_atom\<close> is the new index of the atom.\<close>

definition keep_neighbor ::
  "int array \<Rightarrow> int array \<Rightarrow> int array \<Rightarrow> real array \<Rightarrow> real array \<Rightarrow> real array \<Rightarrow>
   int \<Rightarrow> int \<Rightarrow> int \<Rightarrow> model \<times> int \<Rightarrow> error + (model \<times> int)" where
  "keep_neighbor is_vacancy new_atom_index neighbor_list_pristine hopping_real_pristine
     hopping_imag_pristine xx_pristine n count_atom m =
     (\<lambda>(mdl, count_neighbor).
        let index_old = n * max_neighbor mdl + m in
        bnd (rd neighbor_list_pristine index_old) (\<lambda>k.
        bnd (rd is_vacancy k) (\<lambda>v.
        if v = 0 then
          let index_new = count_atom * max_neighbor mdl + count_neighbor in
          bnd (rd new_atom_index k) (\<lambda>k_new.
          bnd (wr (neighbor_list mdl) index_new k_new) (\<lambda>nl.
          bnd (cell hopping_real_pristine index_old) (\<lambda>c.
          bnd (wr_cell (hopping_real mdl) index_new c) (\<lambda>hr.
          bnd (cell hopping_imag_pristine index_old) (\<lambda>c.
          bnd (wr_cell (hopping_imag mdl) index_new c) (\<lambda>hi.
          bnd (cell xx_pristine index_old) (\<lambda>c.
          bnd (wr_cell (xx mdl) index_new c) (\<lambda>xs.
          Inr (mdl\<lparr>neighbor_list := nl, hopping_real := hr, hopping_imag := hi, xx := xs\<rparr>,
               count_neighbor + 1)))))))))
        else Inr (mdl, count_neighbor))))"

text \<open>The body of the loop over the pristine atoms \<open>n\<close> (lines 159 to 181).\<close>

definition keep_atom ::
  "int array \<Rightarrow> int array \<Rightarrow> int array \<Rightarrow> int array \<Rightarrow> real array \<Rightarrow> real array \<Rightarrow>
   real array \<Rightarrow> int \<Rightarrow> model \<times> int \<Rightarrow> error + (model \<times> int)" where
  "keep_atom is_vacancy new_atom_index neighbor_number_pristine neighbor_list_pristine
     hopping_real_pristine hopping_imag_pristine xx_pristine n =
     (\<lambda>(mdl, count_atom).
        bnd (rd is_vacancy n) (\<lambda>v.
        if v = 0 then
          bnd (rd neighbor_number_pristine n) (\<lambda>nn.
          bnd (for_loop 0 nn
                 (keep_neighbor is_vacancy new_atom_index neighbor_list_pristine
                    hopping_real_pristine hopping_imag_pristine xx_pristine n count_atom)
                 (mdl, 0)) (\<lambda>(mdl, count_neighbor).
          bnd (wr (neighbor_number mdl) count_atom count_neighbor) (\<lambda>nn'.
          Inr (mdl\<lparr>neighbor_number := nn'\<rparr>, count_atom + 1))))
        else Inr (mdl, count_atom)))"

definition add_vacancies ::
  "parameters \<Rightarrow> model \<Rightarrow> generator \<Rightarrow> error + (model \<times> generator)" where
  "add_vacancies p mdl generator =
     bnd (new_array (number_of_atoms mdl)) (\<lambda>neighbor_number_pristine.
     bnd (new_array (number_of_pairs mdl)) (\<lambda>neighbor_list_pristine.
     bnd (new_array (number_of_pairs mdl)) (\<lambda>hopping_real_pristine.
     bnd (new_array (number_of_pairs mdl)) (\<lambda>hopping_imag_pristine.
     bnd (new_array (number_of_pairs mdl)) (\<lambda>xx_pristine.
     bnd (for_loop 0 (number_of_atoms mdl)
            (\<lambda>n a. bnd (cell (neighbor_number mdl) n) (\<lambda>c. wr_cell a n c))
            neighbor_number_pristine) (\<lambda>neighbor_number_pristine.
     bnd (for_loop 0 (number_of_pairs mdl)
            (\<lambda>m (nl, hr, hi, xs).
               bnd (cell (neighbor_list mdl) m) (\<lambda>c. bnd (wr_cell nl m c) (\<lambda>nl.
               bnd (cell (hopping_real mdl) m) (\<lambda>c. bnd (wr_cell hr m c) (\<lambda>hr.
               bnd (cell (hopping_imag mdl) m) (\<lambda>c. bnd (wr_cell hi m c) (\<lambda>hi.
               bnd (cell (xx mdl) m) (\<lambda>c. bnd (wr_cell xs m c) (\<lambda>xs.
               Inr (nl, hr, hi, xs))))))))))
            (neighbor_list_pristine, hopping_real_pristine, hopping_imag_pristine, xx_pristine))
       (\<lambda>(neighbor_list_pristine, hopping_real_pristine, hopping_imag_pristine, xx_pristine).
     let number_of_atoms_pristine = number_of_atoms mdl;
         mdl = mdl\<lparr>number_of_atoms := number_of_atoms_pristine - number_of_vacancies p\<rparr>;
         mdl = mdl\<lparr>number_of_pairs := number_of_atoms mdl * max_neighbor mdl\<rparr> in
     bnd (new_array (number_of_atoms mdl)) (\<lambda>nn.
     bnd (new_array (number_of_pairs mdl)) (\<lambda>nl.
     bnd (new_array (number_of_pairs mdl)) (\<lambda>hr.
     bnd (new_array (number_of_pairs mdl)) (\<lambda>hi.
     bnd (new_array (number_of_pairs mdl)) (\<lambda>xs.
     let mdl = mdl\<lparr>neighbor_number := nn, neighbor_list := nl, hopping_real := hr,
                    hopping_imag := hi, xx := xs\<rparr> in
     bnd (new_array number_of_atoms_pristine) (\<lambda>is_vacancy.
     bnd (specify_vacancies (number_of_vacancies p) is_vacancy number_of_atoms_pristine
            generator) (\<lambda>(is_vacancy, generator).
     bnd (new_array number_of_atoms_pristine) (\<lambda>new_atom_index.
     bnd (find_new_atom_index is_vacancy new_atom_index number_of_atoms_pristine)
       (\<lambda>new_atom_index.
     bnd (for_loop 0 number_of_atoms_pristine
            (keep_atom is_vacancy new_atom_index neighbor_number_pristine
               neighbor_list_pristine hopping_real_pristine hopping_imag_pristine xx_pristine)
            (mdl, 0)) (\<lambda>(mdl, count_atom).
     Inr (mdl, generator))))))))))))))))))"

subsection \<open>Charged impurities\<close>

text \<open>The body of the loop over the axes \<open>d\<close> (lines 232 to 240 of
  \<^verbatim>\<open>add_charged_impurities\<close>), on the local array \<^verbatim>\<open>r12\<close> and the sum \<^verbatim>\<open>d12_square\<close>.\<close>

definition axis_distance ::
  "int list \<Rightarrow> real list \<Rightarrow> real list \<Rightarrow> nat \<Rightarrow> real list \<times> real \<Rightarrow> real list \<times> real" where
  "axis_distance pbc_flags box box_length_half d =
     (\<lambda>(r12, d12_square).
        let r12 = r12[d := \<bar>r12 ! d\<bar>];
            r12 = (if pbc_flags ! d = 1 \<and> r12 ! d > box_length_half ! d
                   then r12[d := box ! d - r12 ! d] else r12)
        in (r12, d12_square + r12 ! d * r12 ! d))"

definition pair_distance_square ::
  "int list \<Rightarrow> real list \<Rightarrow> real list \<Rightarrow> real \<Rightarrow> real \<Rightarrow> real \<Rightarrow> real \<Rightarrow> real \<Rightarrow> real \<Rightarrow>
   real list \<times> real" where
  "pair_distance_square pbc_flags box box_length_half x1 y1 z1 x2 y2 z2 =
     fold (axis_distance pbc_flags box box_length_half) [0, 1, 2] ([x2 - x1, y2 - y1, z2 - z1], 0)"

definition add_charged_impurities ::
  "parameters \<Rightarrow> model \<Rightarrow> generator \<Rightarrow> error + (model \<times> generator)" where
  "add_charged_impurities p mdl generator =
     (let charged_impurity_range_square = charged_impurity_range p * charged_impurity_range p;
          box_length_half = map (\<lambda>d. box_length mdl ! d * 0.5) [0, 1, 2] in
      bnd (new_array (number_of_charged_impurities p)) (\<lambda>impurity_indices.
      bnd (new_array (number_of_charged_impurities p)) (\<lambda>impurity_strength.
      bnd (create_random_numbers (number_of_atoms mdl) (number_of_charged_impurities p)
             impurity_indices generator) (\<lambda>(impurity_indices, generator).
      let W2 = charged_impurity_strength p * 0.5 in
      bnd (for_loop 0 (number_of_charged_impurities p)
             (\<lambda>i (a, g). case uniform_real (- W2) W2 g of (v, g') \<Rightarrow>
                bnd (wr a i v) (\<lambda>a. Inr (a, g')))
             (impurity_strength, generator)) (\<lambda>(impurity_strength, generator).
      bnd (for_loop 0 (number_of_atoms mdl)
             (\<lambda>n1 pot.
                bnd (wr pot n1 0) (\<lambda>pot.
                bnd (rd (x_atom mdl) n1) (\<lambda>x1.
                bnd (rd (y_atom mdl) n1) (\<lambda>y1.
                bnd (rd (z_atom mdl) n1) (\<lambda>z1.
                for_loop 0 (number_of_charged_impurities p)
                  (\<lambda>i pot.
                     bnd (rd impurity_indices i) (\<lambda>n2.
                     bnd (rd (x_atom mdl) n2) (\<lambda>x2.
                     bnd (rd (y_atom mdl) n2) (\<lambda>y2.
                     bnd (rd (z_atom mdl) n2) (\<lambda>z2.
                     let d12_square = snd (pair_distance_square (pbc mdl) (box_length mdl)
                                             box_length_half x1 y1 z1 x2 y2 z2);
                         d12_square = d12_square / charged_impurity_range_square in
                     bnd (rd impurity_strength i) (\<lambda>s.
                     bnd (rd pot n1) (\<lambda>v.
                     wr pot n1 (v + s * exp (- d12_square * 0.5)))))))))
                  pot)))))
             (potential mdl)) (\<lambda>pot.
      Inr (mdl\<lparr>potential := pot\<rparr>, generator)))))))"

subsection \<open>The lattice\<close>

definition find_index :: "int \<Rightarrow> int \<Rightarrow> int \<Rightarrow> int \<Rightarrow> int \<Rightarrow> int \<Rightarrow> int \<Rightarrow> int \<Rightarrow> int" where
  "find_index nx ny nz Nx Ny Nz m N_orb =
     (let nx = (if nx < 0 then nx + Nx else nx);
          nx = (if nx \<ge> Nx then nx - Nx else nx);
          ny = (if ny < 0 then ny + Ny else ny);
          ny = (if ny \<ge> Ny then ny - Ny else ny);
          nz = (if nz < 0 then nz + Nz else nz);
          nz = (if nz \<ge> Nz then nz - Nz else nz)
      in ((nx * Ny + ny) * Nz + nz) * N_orb + m)"

text \<open>
  The tokens of \<^verbatim>\<open>lattice.in\<close> in the order they are read: the cell extents, the boundary
  flags and the transport direction, the lattice constants, the number of orbitals and of
  hoppings per orbital, one position per orbital, and for every orbital its hopping entries
  \<open>(nx, ny, nz, m_neighbor, Re t, Im t)\<close>; the number of hoppings of an orbital is the
  length of its list. A file that ends early is the error \<open>MissingInput\<close>.
\<close>

record lattice_file =
  N_cell :: "int \<times> int \<times> int"
  pbc_flags :: "int \<times> int \<times> int"
  transport_direction :: int
  lattice_constant :: "real \<times> real \<times> real"
  N_orbital :: int
  max_neighbor_in :: int
  positions :: "(real \<times> real \<times> real) list"
  hoppings :: "(int \<times> int \<times> int \<times> int \<times> real \<times> real) list list"

definition axis :: "'a \<times> 'a \<times> 'a \<Rightarrow> int \<Rightarrow> 'a" where
  "axis v d = (case v of (a, b, c) \<Rightarrow> if d = 0 then a else if d = 1 then b else c)"

definition token :: "'a list \<Rightarrow> int \<Rightarrow> error + 'a" where
  "token ts i = (if in_bounds ts i then Inr (ts ! nat i) else Inl MissingInput)"

text \<open>\<^verbatim>\<open>hopping_data\<close> is a vector of six rows of \<^verbatim>\<open>int\<close>.\<close>

definition rd2 :: "'a array list \<Rightarrow> nat \<Rightarrow> int \<Rightarrow> error + 'a" where
  "rd2 rows r i = rd (rows ! r) i"

definition wr2 :: "'a array list \<Rightarrow> nat \<Rightarrow> int \<Rightarrow> 'a \<Rightarrow> error + 'a array list" where
  "wr2 rows r i v = bnd (wr (rows ! r) i v) (\<lambda>row. Inr (rows[r := row]))"

text \<open>The checks of lines 286 to 424, in the order of the source.\<close>

definition check_lattice :: "lattice_file \<Rightarrow> error + unit" where
  "check_lattice f =
     bnd (fatal_if (axis (N_cell f) 0 \<le> 0)
            ''Error: Number of cells in the x direction should > 0'') (\<lambda>_.
     bnd (fatal_if (axis (N_cell f) 1 \<le> 0)
            ''Error: Number of cells in the y direction should > 0'') (\<lambda>_.
     bnd (fatal_if (axis (N_cell f) 2 \<le> 0)
            ''Error: Number of cells in the z direction should > 0'') (\<lambda>_.
     bnd (fatal_if (axis (pbc_flags f) 0 \<noteq> 1 \<and> axis (pbc_flags f) 0 \<noteq> 0)
            ''Error: x direction has wrong boundary'') (\<lambda>_.
     bnd (fatal_if (axis (pbc_flags f) 1 \<noteq> 1 \<and> axis (pbc_flags f) 1 \<noteq> 0)
            ''Error: y direction has wrong boundary'') (\<lambda>_.
     bnd (fatal_if (axis (pbc_flags f) 2 \<noteq> 1 \<and> axis (pbc_flags f) 2 \<noteq> 0)
            ''Error: z direction has wrong boundary'') (\<lambda>_.
     bnd (fatal_if (transport_direction f \<noteq> 0 \<and> transport_direction f \<noteq> 1
                    \<and> transport_direction f \<noteq> 2)
            ''Error: wrong transport direction'') (\<lambda>_.
     bnd (fatal_if (axis (pbc_flags f) (transport_direction f) \<noteq> 1)
            ''Error: transport direction must be periodic'') (\<lambda>_.
     bnd (fatal_if (axis (lattice_constant f) 0 \<le> 0)
            ''Error: lattice constant in x direction < 0'') (\<lambda>_.
     bnd (fatal_if (axis (lattice_constant f) 1 \<le> 0)
            ''Error: lattice constant in y direction < 0'') (\<lambda>_.
     bnd (fatal_if (axis (lattice_constant f) 2 \<le> 0)
            ''Error: lattice constant in z direction < 0'') (\<lambda>_.
     bnd (fatal_if (N_orbital f \<le> 0)
            ''Error: number of orbitals per cell should > 0'') (\<lambda>_.
     fatal_if (max_neighbor_in f \<le> 0)
            ''Error: maximum number of hoppings per orbital should > 0''))))))))))))"

text \<open>Lines 459 to 466: the positions of the orbitals in the cell.\<close>

definition read_positions ::
  "lattice_file \<Rightarrow> real array \<times> real array \<times> real array \<Rightarrow>
   error + (real array \<times> real array \<times> real array)" where
  "read_positions f cells =
     for_loop 0 (N_orbital f)
       (\<lambda>n (x_cell, y_cell, z_cell).
          bnd (token (positions f) n) (\<lambda>(a, b, c).
          bnd (wr x_cell n a) (\<lambda>x_cell.
          bnd (wr y_cell n b) (\<lambda>y_cell.
          bnd (wr z_cell n c) (\<lambda>z_cell.
          Inr (x_cell, y_cell, z_cell))))))
       cells"

text \<open>Lines 470 to 494: the hopping entries go into \<^verbatim>\<open>hopping_data\<close>, whose rows are
  vectors of \<^verbatim>\<open>int\<close>, so the two parts of the amplitude are converted to \<^verbatim>\<open>int\<close>.\<close>

definition read_hoppings ::
  "lattice_file \<Rightarrow> int array \<times> int array list \<Rightarrow> error + (int array \<times> int array list)" where
  "read_hoppings f tables =
     for_loop 0 (N_orbital f)
       (\<lambda>m (number_of_hoppings, hopping_data).
          bnd (token (hoppings f) m) (\<lambda>entries.
          bnd (wr number_of_hoppings m (int (length entries))) (\<lambda>number_of_hoppings.
          bnd (for_loop 0 (int (length entries))
                 (\<lambda>n hopping_data.
                    bnd (token entries n) (\<lambda>(nx, ny, nz, m_neighbor, t_real, t_imag).
                    let k = m * max_neighbor_in f + n in
                    bnd (wr2 hopping_data 0 k nx) (\<lambda>hopping_data.
                    bnd (wr2 hopping_data 1 k ny) (\<lambda>hopping_data.
                    bnd (wr2 hopping_data 2 k nz) (\<lambda>hopping_data.
                    bnd (wr2 hopping_data 3 k m_neighbor) (\<lambda>hopping_data.
                    bnd (wr2 hopping_data 4 k (real_to_int t_real)) (\<lambda>hopping_data.
                    wr2 hopping_data 5 k (real_to_int t_imag))))))))
                 hopping_data) (\<lambda>hopping_data.
          Inr (number_of_hoppings, hopping_data)))))
       tables"

text \<open>The body of the loop over the hopping entries \<open>i\<close> of orbital \<open>m\<close> in the cell
  \<open>(nx1, ny1, nz1)\<close> (lines 519 to 547); \<open>n1\<close> is the index of the atom.\<close>

definition emit_hop ::
  "lattice_file \<Rightarrow> real array \<Rightarrow> int array list \<Rightarrow> int \<Rightarrow> int \<Rightarrow> int \<Rightarrow> int \<Rightarrow> int \<Rightarrow> int \<Rightarrow>
   model \<times> int \<Rightarrow> error + (model \<times> int)" where
  "emit_hop f x_cell hopping_data nx1 ny1 nz1 m n1 i =
     (\<lambda>(mdl, count).
        let neighbor_index = n1 * max_neighbor mdl + count;
            k = m * max_neighbor mdl + i in
        bnd (rd2 hopping_data 0 k) (\<lambda>h0.
        bnd (rd2 hopping_data 1 k) (\<lambda>h1.
        bnd (rd2 hopping_data 2 k) (\<lambda>h2.
        let nx2 = h0 + nx1;
            ny2 = h1 + ny1;
            nz2 = h2 + nz1;
            skip_x = (pbc mdl ! 0 = 0 \<and> (nx2 < 0 \<or> nx2 \<ge> axis (N_cell f) 0));
            skip_y = (pbc mdl ! 1 = 0 \<and> (ny2 < 0 \<or> ny2 \<ge> axis (N_cell f) 1));
            skip_z = (pbc mdl ! 2 = 0 \<and> (nz2 < 0 \<or> nz2 \<ge> axis (N_cell f) 2)) in
        if skip_x \<or> skip_y \<or> skip_z then Inr (mdl, count)
        else
          bnd (rd2 hopping_data 3 k) (\<lambda>h3.
          bnd (wr (neighbor_list mdl) neighbor_index
                 (find_index nx2 ny2 nz2 (axis (N_cell f) 0) (axis (N_cell f) 1)
                    (axis (N_cell f) 2) h3 (N_orbital f))) (\<lambda>nl.
          bnd (rd2 hopping_data (nat (transport_direction f)) k) (\<lambda>ht.
          bnd (rd x_cell h3) (\<lambda>x_target.
          bnd (rd x_cell m) (\<lambda>x_source.
          let x12 = axis (lattice_constant f) (transport_direction f) * real_of_int ht;
              x12 = x12 + (x_target - x_source) in
          bnd (wr (xx mdl) neighbor_index x12) (\<lambda>xv.
          bnd (rd2 hopping_data 4 k) (\<lambda>h4.
          bnd (wr (hopping_real mdl) neighbor_index (real_of_int h4)) (\<lambda>hr.
          bnd (rd2 hopping_data 5 k) (\<lambda>h5.
          bnd (wr (hopping_imag mdl) neighbor_index (real_of_int h5)) (\<lambda>hi.
          Inr (mdl\<lparr>neighbor_list := nl, xx := xv, hopping_real := hr, hopping_imag := hi\<rparr>,
               count + 1)))))))))))))))"

text \<open>The body of the loop over the orbitals \<open>m\<close> (lines 504 to 548).\<close>

definition expand_orbital ::
  "parameters \<Rightarrow> lattice_file \<Rightarrow> real array \<Rightarrow> real array \<Rightarrow> real array \<Rightarrow> int array \<Rightarrow>
   int array list \<Rightarrow> int \<Rightarrow> int \<Rightarrow> int \<Rightarrow> int \<Rightarrow> model \<Rightarrow> error + model" where
  "expand_orbital p f x_cell y_cell z_cell number_of_hoppings hopping_data nx1 ny1 nz1 m mdl =
     (let n1 = find_index nx1 ny1 nz1 (axis (N_cell f) 0) (axis (N_cell f) 1)
                 (axis (N_cell f) 2) m (N_orbital f) in
      bnd (if has_charged_impurities p then
             bnd (rd x_cell m) (\<lambda>a.
             bnd (wr (x_atom mdl) n1 (a + axis (lattice_constant f) 0 * real_of_int nx1)) (\<lambda>xa.
             bnd (rd y_cell m) (\<lambda>b.
             bnd (wr (y_atom mdl) n1 (b + axis (lattice_constant f) 1 * real_of_int ny1)) (\<lambda>ya.
             bnd (rd z_cell m) (\<lambda>c.
             bnd (wr (z_atom mdl) n1 (c + axis (lattice_constant f) 2 * real_of_int nz1)) (\<lambda>za.
             Inr (mdl\<lparr>x_atom := xa, y_atom := ya, z_atom := za\<rparr>)))))))
           else Inr mdl) (\<lambda>mdl.
      bnd (rd number_of_hoppings m) (\<lambda>nh.
      bnd (for_loop 0 nh (emit_hop f x_cell hopping_data nx1 ny1 nz1 m n1) (mdl, 0))
        (\<lambda>(mdl, count).
      bnd (wr (neighbor_number mdl) n1 count) (\<lambda>nn.
      Inr (mdl\<lparr>neighbor_number := nn\<rparr>))))))"

text \<open>The four nested loops of lines 496 to 552.\<close>

definition expand_cells ::
  "parameters \<Rightarrow> lattice_file \<Rightarrow> real array \<Rightarrow> real array \<Rightarrow> real array \<Rightarrow> int array \<Rightarrow>
   int array list \<Rightarrow> model \<Rightarrow> error + model" where
  "expand_cells p f x_cell y_cell z_cell number_of_hoppings hopping_data mdl =
     for_loop 0 (axis (N_cell f) 0) (\<lambda>nx1 mdl.
       for_loop 0 (axis (N_cell f) 1) (\<lambda>ny1 mdl.
         for_loop 0 (axis (N_cell f) 2) (\<lambda>nz1 mdl.
           for_loop 0 (N_orbital f)
             (expand_orbital p f x_cell y_cell z_cell number_of_hoppings hopping_data
                nx1 ny1 nz1) mdl) mdl) mdl) mdl"

text \<open>\<^verbatim>\<open>initialize_lattice_model\<close> up to line 552, before any disorder is added.\<close>

definition build_lattice :: "parameters \<Rightarrow> lattice_file \<Rightarrow> error + model" where
  "build_lattice p f =
     bnd (check_lattice f) (\<lambda>_.
     let box = map (\<lambda>d. axis (lattice_constant f) d * real_of_int (axis (N_cell f) d)) [0, 1, 2];
         vol = box ! 0 * box ! 1 * box ! 2 in
     bnd (checked_int (N_orbital f * axis (N_cell f) 0 * axis (N_cell f) 1 * axis (N_cell f) 2))
       (\<lambda>atoms.
     bnd (checked_int (atoms * max_neighbor_in f)) (\<lambda>pairs.
     bnd (new_array atoms) (\<lambda>nn.
     bnd (new_array pairs) (\<lambda>nl.
     bnd (new_array pairs) (\<lambda>hr.
     bnd (new_array pairs) (\<lambda>hi.
     bnd (new_array pairs) (\<lambda>xv.
     bnd (new_array atoms) (\<lambda>pot.
     bnd (for_loop 0 atoms (\<lambda>n pot. wr pot n 0) pot) (\<lambda>pot.
     let coordinates = (if has_charged_impurities p then replicate (nat atoms) (Some 0) else []);
         mdl = \<lparr>number_of_atoms = atoms, max_neighbor = max_neighbor_in f,
                number_of_pairs = pairs, neighbor_number = nn, neighbor_list = nl,
                hopping_real = hr, hopping_imag = hi, xx = xv, potential = pot,
                x_atom = coordinates, y_atom = coordinates, z_atom = coordinates,
                pbc = map (axis (pbc_flags f)) [0, 1, 2], box_length = box, volume = vol\<rparr>;
         cell0 = replicate (nat (N_orbital f)) (Some 0) in
     bnd (checked_int (N_orbital f * max_neighbor_in f)) (\<lambda>number_of_hoppings_per_cell.
     let hopping_data = replicate 6 (replicate (nat number_of_hoppings_per_cell) (Some 0)) in
     bnd (read_positions f (cell0, cell0, cell0)) (\<lambda>(x_cell, y_cell, z_cell).
     bnd (read_hoppings f (replicate (nat (N_orbital f)) (Some 0), hopping_data))
       (\<lambda>(number_of_hoppings, hopping_data).
     expand_cells p f x_cell y_cell z_cell number_of_hoppings hopping_data mdl)))))))))))))"

definition initialize_lattice_model ::
  "parameters \<Rightarrow> lattice_file option \<Rightarrow> generator \<Rightarrow> error + (model \<times> generator)" where
  "initialize_lattice_model p file generator =
     (case file of
        None \<Rightarrow> Inl (ConfigError ''Could not open lattice.in'')
      | Some f \<Rightarrow>
          bnd (build_lattice p f) (\<lambda>mdl.
          bnd (if has_vacancy_disorder p then add_vacancies p mdl generator
               else Inr (mdl, generator)) (\<lambda>(mdl, generator).
          bnd (if has_anderson_disorder p then add_anderson_disorder p mdl generator
               else Inr (mdl, generator)) (\<lambda>(mdl, generator).
          if has_charged_impurities p then add_charged_impurities p mdl generator
          else Inr (mdl, generator)))))"

section \<open>The random state\<close>

definition PI :: real where
  "PI = 3.141592653589793"

text \<open>\<^verbatim>\<open>initialize_state\<close> fills two host buffers of \<^verbatim>\<open>number_of_atoms\<close> entries, which
  \<^verbatim>\<open>copy_from_host\<close> then hands to the vector; the buffers are the result here.\<close>

definition initialize_state ::
  "parameters \<Rightarrow> model \<Rightarrow> generator \<Rightarrow> error + (real array \<times> real array \<times> generator)" where
  "initialize_state p mdl generator =
     bnd (new_array (number_of_atoms mdl)) (\<lambda>random_state_real.
     bnd (new_array (number_of_atoms mdl)) (\<lambda>random_state_imag.
     if calculate_spin p then
       for_loop2 0 (number_of_atoms mdl)
         (\<lambda>n (re, im, g). case uniform_real 0 (2 * PI) g of (random_phase, g') \<Rightarrow>
            bnd (wr re n (cos random_phase)) (\<lambda>re.
            bnd (wr im n (sin random_phase)) (\<lambda>im.
            bnd (wr re (n + 1) 0) (\<lambda>re.
            bnd (wr im (n + 1) 0) (\<lambda>im.
            Inr (re, im, g'))))))
         (random_state_real, random_state_imag, generator)
     else
       for_loop 0 (number_of_atoms mdl)
         (\<lambda>n (re, im, g). case uniform_real 0 (2 * PI) g of (random_phase, g') \<Rightarrow>
            bnd (wr re n (cos random_phase)) (\<lambda>re.
            bnd (wr im n (sin random_phase)) (\<lambda>im.
            Inr (re, im, g'))))
         (random_state_real, random_state_imag, generator)))"

section \<open>Notions used in the statements\<close>

text \<open>The slot of an array at an \<^verbatim>\<open>int\<close> index.\<close>

definition slot :: "'a list \<Rightarrow> int \<Rightarrow> 'a" where
  "slot xs i = xs ! nat i"

text \<open>
  The forward shuffle in the words of the specification: starting from the indices
  \<open>0, \<dots>, N - 1\<close> in order, step \<open>i\<close> picks a position \<open>pick i\<close> and swaps the entries at
  \<open>i\<close> and \<open>pick i\<close>. \<open>forward_shuffle pick N i\<close> is the list after the steps \<open>0, \<dots>, i - 1\<close>.
  \<open>shuffle_pick g N i\<close> is the position that the code computes at step \<open>i\<close> from the
  \<open>i\<close>-th draw of the generator; \<open>skip_draws k g\<close> is the generator after \<open>k\<close> draws.
\<close>

definition swap :: "nat \<Rightarrow> nat \<Rightarrow> 'a list \<Rightarrow> 'a list" where
  "swap i j xs = xs[i := xs ! j, j := xs ! i]"

definition forward_shuffle :: "(nat \<Rightarrow> nat) \<Rightarrow> nat \<Rightarrow> nat \<Rightarrow> nat list" where
  "forward_shuffle pick N i = fold (\<lambda>i xs. swap i (pick i) xs) [0..<i] [0..<N]"

definition shuffle_pick :: "generator \<Rightarrow> int \<Rightarrow> nat \<Rightarrow> nat" where
  "shuffle_pick g N i = int_draws g i mod (nat N - i) + i"

definition skip_draws :: "nat \<Rightarrow> generator \<Rightarrow> generator" where
  "skip_draws k g = g\<lparr>int_draws := (\<lambda>n. int_draws g (n + k))\<rparr>"

text \<open>The sites that \<^verbatim>\<open>create_random_numbers\<close> returns for \<open>k\<close> numbers below \<open>N\<close>: the first
  \<open>k\<close> entries of the shuffled list.\<close>

definition vacancy_sites :: "generator \<Rightarrow> int \<Rightarrow> int \<Rightarrow> nat list" where
  "vacancy_sites g N k = take (nat k) (forward_shuffle (shuffle_pick g N) (nat N) (nat N))"

text \<open>
  The vacancies. \<open>vacancy_flags g N k\<close> is the array \<^verbatim>\<open>is_vacancy\<close> that
  \<^verbatim>\<open>specify_vacancies\<close> computes: 1 at the sampled sites, 0 elsewhere.
  \<open>new_index is_vacancy n\<close> is the number of atoms below \<open>n\<close> that are not vacant, the new
  index of a surviving atom \<open>n\<close>.
\<close>

definition vacancy_flags :: "generator \<Rightarrow> int \<Rightarrow> int \<Rightarrow> int array" where
  "vacancy_flags g N k =
     map (\<lambda>j. Some (if j \<in> set (vacancy_sites g N k) then 1 else 0)) [0..<nat N]"

definition new_index :: "int array \<Rightarrow> int \<Rightarrow> int" where
  "new_index is_vacancy n = int (length (filter (\<lambda>j. is_vacancy ! j = Some 0) [0..<nat n]))"

text \<open>
  The neighbour table. \<open>cells mdl j\<close> is slot \<open>j\<close> of the four arrays of pairs: the target
  atom, the two parts of the hopping amplitude and the displacement. \<open>row mdl n c\<close> is the
  list of the first \<open>c\<close> such slots of atom \<open>n\<close>, and \<open>hops mdl n\<close> the list of its
  \<^verbatim>\<open>neighbor_number[n]\<close> valid slots, in the order of the table.
\<close>

definition cells :: "model \<Rightarrow> int \<Rightarrow> int option \<times> real option \<times> real option \<times> real option" where
  "cells mdl j = (slot (neighbor_list mdl) j, slot (hopping_real mdl) j,
                  slot (hopping_imag mdl) j, slot (xx mdl) j)"

definition row ::
  "model \<Rightarrow> int \<Rightarrow> nat \<Rightarrow> (int option \<times> real option \<times> real option \<times> real option) list" where
  "row mdl n c = map (\<lambda>i. cells mdl (n * max_neighbor mdl + int i)) [0..<c]"

definition hops ::
  "model \<Rightarrow> int \<Rightarrow> (int option \<times> real option \<times> real option \<times> real option) list" where
  "hops mdl n = row mdl n (nat (the (slot (neighbor_number mdl) n)))"

text \<open>A hop is kept when its target is not vacant and dropped when its target is marked;
  a kept hop is stored with the new index of its target.\<close>

definition kept :: "int array \<Rightarrow> int option \<times> 'b \<Rightarrow> bool" where
  "kept is_vacancy h = (case fst h of None \<Rightarrow> False | Some t \<Rightarrow> slot is_vacancy t = Some 0)"

definition marked :: "int array \<Rightarrow> int option \<times> 'b \<Rightarrow> bool" where
  "marked is_vacancy h = (case fst h of None \<Rightarrow> False | Some t \<Rightarrow> slot is_vacancy t = Some 1)"

definition renumber :: "int array \<Rightarrow> int option \<times> 'b \<Rightarrow> int option \<times> 'b" where
  "renumber is_vacancy h = (map_option (new_index is_vacancy) (fst h), snd h)"

text \<open>
  A well-formed pristine model: the sizes fit together, every atom has between 0 and
  \<^verbatim>\<open>max_neighbor\<close> neighbours, and its valid slots hold the indices of atoms.
\<close>

definition wf_model :: "model \<Rightarrow> bool" where
  "wf_model mdl \<longleftrightarrow>
     0 \<le> number_of_atoms mdl \<and> 0 < max_neighbor mdl
     \<and> number_of_pairs mdl = number_of_atoms mdl * max_neighbor mdl
     \<and> length (neighbor_number mdl) = nat (number_of_atoms mdl)
     \<and> length (neighbor_list mdl) = nat (number_of_pairs mdl)
     \<and> length (hopping_real mdl) = nat (number_of_pairs mdl)
     \<and> length (hopping_imag mdl) = nat (number_of_pairs mdl)
     \<and> length (xx mdl) = nat (number_of_pairs mdl)
     \<and> (\<forall>n \<in> {0..<number_of_atoms mdl}.
           case slot (neighbor_number mdl) n of
             None \<Rightarrow> False
           | Some c \<Rightarrow> 0 \<le> c \<and> c \<le> max_neighbor mdl
               \<and> (\<forall>m \<in> {0..<c}.
                     case slot (neighbor_list mdl) (n * max_neighbor mdl + m) of
                       None \<Rightarrow> False
                     | Some t \<Rightarrow> 0 \<le> t \<and> t < number_of_atoms mdl))"

text \<open>Two models that differ at most in \<open>neighbor_number\<close> and in the four arrays of pairs,
  of equal lengths (\<open>same_frame5\<close>), or in the four arrays of pairs only (\<open>same_frame\<close>).\<close>

definition same_frame5 :: "model \<Rightarrow> model \<Rightarrow> bool" where
  "same_frame5 mdl mdl' \<longleftrightarrow>
     number_of_atoms mdl' = number_of_atoms mdl \<and> max_neighbor mdl' = max_neighbor mdl
     \<and> number_of_pairs mdl' = number_of_pairs mdl \<and> potential mdl' = potential mdl
     \<and> x_atom mdl' = x_atom mdl \<and> y_atom mdl' = y_atom mdl \<and> z_atom mdl' = z_atom mdl
     \<and> pbc mdl' = pbc mdl \<and> box_length mdl' = box_length mdl \<and> volume mdl' = volume mdl
     \<and> length (neighbor_number mdl') = length (neighbor_number mdl)
     \<and> length (neighbor_list mdl') = length (neighbor_list mdl)
     \<and> length (hopping_real mdl') = length (hopping_real mdl)
     \<and> length (hopping_imag mdl') = length (hopping_imag mdl)
     \<and> length (xx mdl') = length (xx mdl)"

definition same_frame :: "model \<Rightarrow> model \<Rightarrow> bool" where
  "same_frame mdl mdl' \<longleftrightarrow> same_frame5 mdl mdl' \<and> neighbor_number mdl' = neighbor_number mdl"

text \<open>What the rebuild relies on: \<^verbatim>\<open>is_vacancy\<close> is initialised and \<^verbatim>\<open>new_atom_index\<close>
  holds the new index of every surviving atom. \<open>rebuilt\<close> is the row of a surviving atom
  \<open>n\<close> in the new table.\<close>

definition vacancy_maps :: "model \<Rightarrow> int array \<Rightarrow> int array \<Rightarrow> bool" where
  "vacancy_maps mdl is_vacancy new_atom_index \<longleftrightarrow>
     length is_vacancy = nat (number_of_atoms mdl)
     \<and> length new_atom_index = nat (number_of_atoms mdl)
     \<and> (\<forall>n \<in> {0..<number_of_atoms mdl}. \<exists>v. slot is_vacancy n = Some v)
     \<and> (\<forall>n \<in> {0..<number_of_atoms mdl}. slot is_vacancy n = Some 0 \<longrightarrow>
            slot new_atom_index n = Some (new_index is_vacancy n))"

definition rebuilt :: "int array \<Rightarrow> model \<Rightarrow> model \<Rightarrow> int \<Rightarrow> bool" where
  "rebuilt is_vacancy mdl mdl' n \<longleftrightarrow>
     slot (neighbor_number mdl') (new_index is_vacancy n)
       = Some (int (length (filter (kept is_vacancy) (hops mdl n))))
     \<and> row mdl' (new_index is_vacancy n) (length (filter (kept is_vacancy) (hops mdl n)))
         = map (renumber is_vacancy) (filter (kept is_vacancy) (hops mdl n))"

text \<open>In spin mode the entry at an even index \<open>n\<close> has modulus one and the entry at
  \<open>n + 1\<close> is zero.\<close>

definition spin_ok :: "real array \<Rightarrow> real array \<Rightarrow> int \<Rightarrow> bool" where
  "spin_ok re im n \<longleftrightarrow>
     (\<exists>a b. slot re n = Some a \<and> slot im n = Some b \<and> a\<^sup>2 + b\<^sup>2 = 1)
     \<and> slot re (n + 1) = Some 0 \<and> slot im (n + 1) = Some 0"

text \<open>The invariant of the spin loop before the iteration at index \<open>j\<close>.\<close>

definition spin_inv :: "int \<Rightarrow> int \<Rightarrow> real array \<times> real array \<times> generator \<Rightarrow> bool" where
  "spin_inv N j = (\<lambda>(re, im, g). even j \<and> 0 \<le> j \<and> length re = nat N \<and> length im = nat N
     \<and> (\<forall>n. 0 \<le> n \<and> n < j \<and> even n \<longrightarrow> spin_ok re im n))"

text \<open>Inputs for the examples: a generator whose \<open>n\<close>-th integer draw is \<open>n + 1\<close>, a
  parameter file with no disorder, and the model with no atoms.\<close>

definition example_generator :: generator where
  "example_generator = \<lparr>int_draws = (\<lambda>n. n + 1), real_draws = (\<lambda>n. 0)\<rparr>"

definition example_parameters :: parameters where
  "example_parameters =
     \<lparr>use_lattice_model = True, has_anderson_disorder = False, anderson_disorder_strength = 0,
      has_charged_impurities = False, number_of_charged_impurities = 0,
      charged_impurity_strength = 0, charged_impurity_range = 0,
      has_vacancy_disorder = False, number_of_vacancies = 0,
      calculate_vac = False, calculate_msd = False, calculate_spin = False,
      requires_time = False, number_of_random_vectors = 1, number_of_moments = 1,
      energy_max = 1\<rparr>"

definition empty_model :: model where
  "empty_model =
     \<lparr>number_of_atoms = 0, max_neighbor = 1, number_of_pairs = 0, neighbor_number = [],
      neighbor_list = [], hopping_real = [], hopping_imag = [], xx = [], potential = [],
      x_atom = [], y_atom = [], z_atom = [], pbc = [1, 1, 1], box_length = [1, 1, 1],
      volume = 1\<rparr>"

text \<open>The model of four atoms on a periodic 2 x 2 x 1 lattice with one hop in the x direction
  per atom, and a parameter file that asks for one vacancy.\<close>

definition example_model :: model where
  "example_model =
     \<lparr>number_of_atoms = 4, max_neighbor = 2, number_of_pairs = 8,
      neighbor_number = [Some 1, Some 1, Some 1, Some 1],
      neighbor_list = [Some 2, None, Some 3, None, Some 0, None, Some 1, None],
      hopping_real = [Some 1, None, Some 1, None, Some 1, None, Some 1, None],
      hopping_imag = [Some 0, None, Some 0, None, Some 0, None, Some 0, None],
      xx = [Some 1, None, Some 1, None, Some 1, None, Some 1, None],
      potential = [Some 0, Some 0, Some 0, Some 0],
      x_atom = [], y_atom = [], z_atom = [], pbc = [1, 1, 1], box_length = [2, 2, 1],
      volume = 4\<rparr>"

definition one_vacancy :: parameters where
  "one_vacancy = example_parameters\<lparr>has_vacancy_disorder := True, number_of_vacancies := 1\<rparr>"



text \<open>
  The lattice file. \<open>entry_row r e\<close> is what row \<open>r\<close> of \<^verbatim>\<open>hopping_data\<close> holds for the hopping
  entry \<open>e\<close>: the cell offsets, the target orbital and the two parts of the amplitude after
  their conversion to \<^verbatim>\<open>int\<close>. \<open>hop_count f m\<close> and \<open>hop_entry f m i\<close> are the number of
  hoppings of orbital \<open>m\<close> and its \<open>i\<close>-th entry, \<open>orbital_position f j\<close> the position of
  orbital \<open>j\<close> in the cell, \<open>atoms_of f\<close> the number of atoms of the lattice.
\<close>

type_synonym hop_entry = "int \<times> int \<times> int \<times> int \<times> real \<times> real"

definition entry_row :: "nat \<Rightarrow> hop_entry \<Rightarrow> int" where
  "entry_row r e = (case e of (nx, ny, nz, m_neighbor, t_real, t_imag) \<Rightarrow>
     [nx, ny, nz, m_neighbor, real_to_int t_real, real_to_int t_imag] ! r)"

definition hop_count :: "lattice_file \<Rightarrow> int \<Rightarrow> int" where
  "hop_count f m = int (length (hoppings f ! nat m))"

definition hop_entry :: "lattice_file \<Rightarrow> int \<Rightarrow> int \<Rightarrow> hop_entry" where
  "hop_entry f m i = hoppings f ! nat m ! nat i"

definition orbital_position :: "lattice_file \<Rightarrow> int \<Rightarrow> real \<times> real \<times> real" where
  "orbital_position f j = positions f ! nat j"

definition atoms_of :: "lattice_file \<Rightarrow> int" where
  "atoms_of f = N_orbital f * axis (N_cell f) 0 * axis (N_cell f) 1 * axis (N_cell f) 2"

text \<open>
  An accepted lattice file: it passes the checks of the source, the array sizes fit an
  \<^verbatim>\<open>int\<close>, the file holds a position and a hopping list for every orbital, no orbital has
  more than \<^verbatim>\<open>max_neighbor\<close> hoppings, and every target orbital is an orbital of the cell.
\<close>

definition accepted_lattice :: "lattice_file \<Rightarrow> bool" where
  "accepted_lattice f \<longleftrightarrow>
     check_lattice f = Inr ()
     \<and> atoms_of f * max_neighbor_in f \<le> INT_MAX
     \<and> nat (N_orbital f) \<le> length (positions f)
     \<and> nat (N_orbital f) \<le> length (hoppings f)
     \<and> (\<forall>m \<in> {0..<N_orbital f}. hop_count f m \<le> max_neighbor_in f
           \<and> (\<forall>e \<in> set (hoppings f ! nat m). 0 \<le> entry_row 3 e \<and> entry_row 3 e < N_orbital f))"

text \<open>
  The expansion. A hop of the cell \<open>(nx1, ny1, nz1)\<close> is skipped when it leaves the lattice
  along an open axis; \<open>emitted\<close> is the list of the hops of orbital \<open>m\<close> that are not
  skipped, in the order of the file, and \<open>hop_cells\<close> is what the code stores for one of
  them: the index of the target atom, the amplitude and the displacement.
  \<open>flat_index\<close> is the index of the atom of orbital \<open>m\<close> in the cell \<open>(nx, ny, nz)\<close>, and
  \<open>atom_built\<close> says that the table of the model holds the emitted hops of that atom.
\<close>

definition hop_skipped :: "lattice_file \<Rightarrow> int \<Rightarrow> int \<Rightarrow> int \<Rightarrow> hop_entry \<Rightarrow> bool" where
  "hop_skipped f nx1 ny1 nz1 e =
     (let nx2 = entry_row 0 e + nx1; ny2 = entry_row 1 e + ny1; nz2 = entry_row 2 e + nz1 in
      (axis (pbc_flags f) 0 = 0 \<and> (nx2 < 0 \<or> nx2 \<ge> axis (N_cell f) 0))
      \<or> (axis (pbc_flags f) 1 = 0 \<and> (ny2 < 0 \<or> ny2 \<ge> axis (N_cell f) 1))
      \<or> (axis (pbc_flags f) 2 = 0 \<and> (nz2 < 0 \<or> nz2 \<ge> axis (N_cell f) 2)))"

definition hop_cells ::
  "lattice_file \<Rightarrow> int \<Rightarrow> int \<Rightarrow> int \<Rightarrow> int \<Rightarrow> hop_entry \<Rightarrow>
   int option \<times> real option \<times> real option \<times> real option" where
  "hop_cells f nx1 ny1 nz1 m e =
     (Some (find_index (entry_row 0 e + nx1) (entry_row 1 e + ny1) (entry_row 2 e + nz1)
              (axis (N_cell f) 0) (axis (N_cell f) 1) (axis (N_cell f) 2)
              (entry_row 3 e) (N_orbital f)),
      Some (real_of_int (entry_row 4 e)),
      Some (real_of_int (entry_row 5 e)),
      Some (axis (lattice_constant f) (transport_direction f)
              * real_of_int (entry_row (nat (transport_direction f)) e)
            + (fst (orbital_position f (entry_row 3 e)) - fst (orbital_position f m))))"

definition emitted :: "lattice_file \<Rightarrow> int \<Rightarrow> int \<Rightarrow> int \<Rightarrow> int \<Rightarrow> hop_entry list" where
  "emitted f nx1 ny1 nz1 m = filter (\<lambda>e. \<not> hop_skipped f nx1 ny1 nz1 e) (hoppings f ! nat m)"

definition flat_index :: "lattice_file \<Rightarrow> int \<Rightarrow> int \<Rightarrow> int \<Rightarrow> int \<Rightarrow> int" where
  "flat_index f nx ny nz m =
     ((nx * axis (N_cell f) 1 + ny) * axis (N_cell f) 2 + nz) * N_orbital f + m"

definition in_lattice :: "lattice_file \<Rightarrow> int \<Rightarrow> int \<Rightarrow> int \<Rightarrow> int \<Rightarrow> bool" where
  "in_lattice f nx ny nz m \<longleftrightarrow>
     0 \<le> nx \<and> nx < axis (N_cell f) 0 \<and> 0 \<le> ny \<and> ny < axis (N_cell f) 1
     \<and> 0 \<le> nz \<and> nz < axis (N_cell f) 2 \<and> 0 \<le> m \<and> m < N_orbital f"

definition atom_built :: "lattice_file \<Rightarrow> model \<Rightarrow> int \<Rightarrow> int \<Rightarrow> int \<Rightarrow> int \<Rightarrow> bool" where
  "atom_built f mdl nx ny nz m \<longleftrightarrow>
     slot (neighbor_number mdl) (flat_index f nx ny nz m)
       = Some (int (length (emitted f nx ny nz m)))
     \<and> row mdl (flat_index f nx ny nz m) (length (emitted f nx ny nz m))
         = map (hop_cells f nx ny nz m) (emitted f nx ny nz m)"

text \<open>The displacement of a hop in the words of the specification: the cell offset along
  the transport axis times the lattice constant of that axis, plus the difference of the
  positions of the target and the source orbital along the same axis.\<close>

definition claimed_displacement :: "lattice_file \<Rightarrow> int \<Rightarrow> hop_entry \<Rightarrow> real" where
  "claimed_displacement f m e =
     axis (lattice_constant f) (transport_direction f)
       * real_of_int (entry_row (nat (transport_direction f)) e)
     + (axis (orbital_position f (entry_row 3 e)) (transport_direction f)
        - axis (orbital_position f m) (transport_direction f))"

text \<open>
  Invariants of the loops of the expansion: the contents of \<^verbatim>\<open>hopping_data\<close> after the
  entries below \<open>(m, n)\<close> have been read, and of the position arrays of the cell after \<open>n\<close>
  orbitals; the members that the expansion leaves alone (\<open>lattice_frame\<close>); the sizes of the
  arrays it starts from (\<open>initial_tables\<close>); and the atoms below the index \<open>J\<close> being built
  (\<open>expand_inv\<close>).
\<close>

definition hopping_table :: "lattice_file \<Rightarrow> int array list \<Rightarrow> int \<Rightarrow> int \<Rightarrow> bool" where
  "hopping_table f tbl m n \<longleftrightarrow>
     length tbl = 6 \<and> (\<forall>r < 6. length (tbl ! r) = nat (N_orbital f * max_neighbor_in f))
     \<and> (\<forall>m' i. 0 \<le> m' \<and> 0 \<le> i \<and> (m' < m \<and> i < hop_count f m' \<or> m' = m \<and> i < n) \<longrightarrow>
           (\<forall>r < 6. slot (tbl ! r) (m' * max_neighbor_in f + i) = Some (entry_row r (hop_entry f m' i))))"

definition cell_arrays :: "lattice_file \<Rightarrow> real array \<Rightarrow> real array \<Rightarrow> real array \<Rightarrow> int \<Rightarrow> bool" where
  "cell_arrays f x_cell y_cell z_cell n \<longleftrightarrow>
     length x_cell = nat (N_orbital f) \<and> length y_cell = nat (N_orbital f)
     \<and> length z_cell = nat (N_orbital f)
     \<and> (\<forall>j. 0 \<le> j \<and> j < n \<longrightarrow>
           slot x_cell j = Some (fst (orbital_position f j))
           \<and> slot y_cell j = Some (fst (snd (orbital_position f j)))
           \<and> slot z_cell j = Some (snd (snd (orbital_position f j))))"

definition lattice_frame :: "model \<Rightarrow> model \<Rightarrow> bool" where
  "lattice_frame mdl mdl' \<longleftrightarrow>
     number_of_atoms mdl' = number_of_atoms mdl \<and> max_neighbor mdl' = max_neighbor mdl
     \<and> number_of_pairs mdl' = number_of_pairs mdl \<and> potential mdl' = potential mdl
     \<and> pbc mdl' = pbc mdl \<and> box_length mdl' = box_length mdl \<and> volume mdl' = volume mdl
     \<and> length (neighbor_number mdl') = length (neighbor_number mdl)
     \<and> length (neighbor_list mdl') = length (neighbor_list mdl)
     \<and> length (hopping_real mdl') = length (hopping_real mdl)
     \<and> length (hopping_imag mdl') = length (hopping_imag mdl)
     \<and> length (xx mdl') = length (xx mdl)
     \<and> length (x_atom mdl') = length (x_atom mdl)
     \<and> length (y_atom mdl') = length (y_atom mdl)
     \<and> length (z_atom mdl') = length (z_atom mdl)"

definition expand_inv :: "lattice_file \<Rightarrow> model \<Rightarrow> int \<Rightarrow> model \<Rightarrow> bool" where
  "expand_inv f m0 J mc \<longleftrightarrow>
     lattice_frame m0 mc
     \<and> (\<forall>nx ny nz m. in_lattice f nx ny nz m \<and> flat_index f nx ny nz m < J \<longrightarrow>
           atom_built f mc nx ny nz m)"

definition initial_tables :: "parameters \<Rightarrow> lattice_file \<Rightarrow> model \<Rightarrow> bool" where
  "initial_tables p f m0 \<longleftrightarrow>
     max_neighbor m0 = max_neighbor_in f \<and> pbc m0 = map (axis (pbc_flags f)) [0, 1, 2]
     \<and> length (neighbor_number m0) = nat (atoms_of f)
     \<and> length (neighbor_list m0) = nat (atoms_of f * max_neighbor_in f)
     \<and> length (hopping_real m0) = nat (atoms_of f * max_neighbor_in f)
     \<and> length (hopping_imag m0) = nat (atoms_of f * max_neighbor_in f)
     \<and> length (xx m0) = nat (atoms_of f * max_neighbor_in f)
     \<and> (has_charged_impurities p \<longrightarrow> length (x_atom m0) = nat (atoms_of f)
           \<and> length (y_atom m0) = nat (atoms_of f) \<and> length (z_atom m0) = nat (atoms_of f))"

text \<open>
  Lattice files for the examples: one orbital on a periodic 2 x 2 x 1 lattice with the single
  hop \<open>(1, 0, 0)\<close> of amplitude 1; two orbitals in one cell with transport along y; and one
  orbital with a hop of amplitude \<open>-2.7 + 0.5 i\<close>.
\<close>

definition single_hop_lattice ::
  "int \<Rightarrow> real \<times> real \<times> real \<Rightarrow> real \<times> real \<times> real \<Rightarrow> lattice_file" where
  "single_hop_lattice mn a pos =
     \<lparr>N_cell = (2, 2, 1), pbc_flags = (1, 1, 1), transport_direction = 0,
      lattice_constant = a, N_orbital = 1, max_neighbor_in = mn,
      positions = [pos], hoppings = [[(1, 0, 0, 0, 1, 0)]]\<rparr>"

definition example_lattice :: lattice_file where
  "example_lattice = single_hop_lattice 2 (1, 1, 1) (0, 0, 0)"

definition y_transport_lattice :: lattice_file where
  "y_transport_lattice =
     \<lparr>N_cell = (1, 1, 1), pbc_flags = (1, 1, 1), transport_direction = 1,
      lattice_constant = (1, 1, 1), N_orbital = 2, max_neighbor_in = 1,
      positions = [(0, 0, 0), (1, 2, 0)], hoppings = [[(0, 0, 0, 1, 1, 0)], []]\<rparr>"

definition real_hopping_lattice :: lattice_file where
  "real_hopping_lattice =
     \<lparr>N_cell = (1, 1, 1), pbc_flags = (1, 1, 1), transport_direction = 0,
      lattice_constant = (1, 1, 1), N_orbital = 1, max_neighbor_in = 1,
      positions = [(0, 0, 0)], hoppings = [[(1, 0, 0, 0, -2.7, 0.5)]]\<rparr>"

text \<open>
  Two lattice files with a hop that reaches beyond the lattice: extents 2 x 2 x 1, three
  periodic axes and the single hop \<open>(3, 0, 0)\<close>, or \<open>(-3, 0, 0)\<close>.
\<close>

definition far_hop_lattice :: lattice_file where
  "far_hop_lattice =
     \<lparr>N_cell = (2, 2, 1), pbc_flags = (1, 1, 1), transport_direction = 0,
      lattice_constant = (1, 1, 1), N_orbital = 1, max_neighbor_in = 1,
      positions = [(0, 0, 0)], hoppings = [[(3, 0, 0, 0, 1, 0)]]\<rparr>"

definition back_hop_lattice :: lattice_file where
  "back_hop_lattice =
     \<lparr>N_cell = (2, 2, 1), pbc_flags = (1, 1, 1), transport_direction = 0,
      lattice_constant = (1, 1, 1), N_orbital = 1, max_neighbor_in = 1,
      positions = [(0, 0, 0)], hoppings = [[(- 3, 0, 0, 0, 1, 0)]]\<rparr>"

text \<open>
  \<^verbatim>\<open>find_index\<close> wraps each cell index once (\<open>wrap_once\<close>). The hops of a file are in reach
  when, on every periodic axis, no cell offset exceeds the extent of the lattice; one wrap
  then brings every target cell back into the lattice.
\<close>

definition wrap_once :: "int \<Rightarrow> int \<Rightarrow> int" where
  "wrap_once N v = (let v = (if v < 0 then v + N else v) in if v \<ge> N then v - N else v)"

definition hops_in_reach :: "lattice_file \<Rightarrow> bool" where
  "hops_in_reach f \<longleftrightarrow>
     (\<forall>m \<in> {0..<N_orbital f}. \<forall>e \<in> set (hoppings f ! nat m).
        (axis (pbc_flags f) 0 = 1 \<longrightarrow> \<bar>entry_row 0 e\<bar> \<le> axis (N_cell f) 0)
        \<and> (axis (pbc_flags f) 1 = 1 \<longrightarrow> \<bar>entry_row 1 e\<bar> \<le> axis (N_cell f) 1)
        \<and> (axis (pbc_flags f) 2 = 1 \<longrightarrow> \<bar>entry_row 2 e\<bar> \<le> axis (N_cell f) 2))"

section \<open>Loops and arrays\<close>

lemma for_loop_done: "n \<le> i \<Longrightarrow> for_loop i n body s = Inr s"
  by (simp add: for_loop.simps)

lemma for_loop_rule:
  assumes "I i s" and "i \<le> n"
    and "\<And>j t. i \<le> j \<Longrightarrow> j < n \<Longrightarrow> I j t \<Longrightarrow> \<exists>t'. body j t = Inr t' \<and> I (j + 1) t'"
  shows "\<exists>t. for_loop i n body s = Inr t \<and> I n t"
  using assms
proof (induction i n body s rule: for_loop.induct)
  case (1 i n body s)
  show ?case
  proof (cases "i < n")
    case True
    from 1(4)[of i s] True 1(2) obtain t' where t': "body i s = Inr t'" "I (i + 1) t'"
      by auto
    have "\<exists>t. for_loop (i + 1) n body t' = Inr t \<and> I n t"
      using True t' 1(4) by (intro 1(1)) auto
    then show ?thesis using True t' by (subst for_loop.simps) simp
  next
    case False
    with 1(2,3) show ?thesis by (simp add: for_loop.simps)
  qed
qed

lemma for_loop_partial:
  assumes "for_loop i n body s = Inr t" and "I i s" and "i \<le> n"
    and "\<And>j u u'. i \<le> j \<Longrightarrow> j < n \<Longrightarrow> I j u \<Longrightarrow> body j u = Inr u' \<Longrightarrow> I (j + 1) u'"
  shows "I n t"
  using assms
proof (induction i n body s rule: for_loop.induct)
  case (1 i n body s)
  show ?case
  proof (cases "i < n")
    case True
    from 1(2) True obtain s' where s': "body i s = Inr s'" "for_loop (i + 1) n body s' = Inr t"
      by (subst (asm) for_loop.simps) (auto split: sum.splits)
    show ?thesis
      using True s' 1(3,5) by (intro 1(1)[OF True s'(1) s'(2)]) auto
  next
    case False
    with 1(2,3,4) show ?thesis by (simp add: for_loop.simps)
  qed
qed

lemma for_loop_fail:
  assumes "I i s" and "i \<le> k" and "k < n"
    and "\<And>j t. i \<le> j \<Longrightarrow> j < k \<Longrightarrow> I j t \<Longrightarrow> \<exists>t'. body j t = Inr t' \<and> I (j + 1) t'"
    and "\<And>t. I k t \<Longrightarrow> body k t = Inl e"
  shows "for_loop i n body s = Inl e"
  using assms
proof (induction i n body s rule: for_loop.induct)
  case (1 i n body s)
  show ?case
  proof (cases "i < k")
    case True
    from 1(5)[of i s] True 1(2) obtain t' where t': "body i s = Inr t'" "I (i + 1) t'"
      by auto
    have "for_loop (i + 1) n body t' = Inl e"
      using True t' 1(4,5,6) by (intro 1(1)) auto
    then show ?thesis using True t' 1(4) by (subst for_loop.simps) simp
  next
    case False
    with 1(3) have "i = k" by simp
    with 1(2,4,6) show ?thesis by (subst for_loop.simps) simp
  qed
qed



lemma bnd_Inr [simp]: "bnd (Inr v) f = f v"
  by (simp add: bnd_def)

lemma bnd_Inl [simp]: "bnd (Inl e) f = Inl e"
  by (simp add: bnd_def)

lemma bnd_eq_Inr: "bnd r f = Inr w \<longleftrightarrow> (\<exists>v. r = Inr v \<and> f v = Inr w)"
  by (cases r) auto

lemma new_array_ok: "0 \<le> n \<Longrightarrow> new_array n = Inr (replicate (nat n) None)"
  by (simp add: new_array_def)

lemma cell_ok: "0 \<le> i \<Longrightarrow> nat i < length a \<Longrightarrow> cell a i = Inr (a ! nat i)"
  by (simp add: cell_def in_bounds_def)

lemma rd_ok: "0 \<le> i \<Longrightarrow> nat i < length a \<Longrightarrow> a ! nat i = Some v \<Longrightarrow> rd a i = Inr v"
  by (simp add: rd_def cell_ok)

lemma wr_cell_ok: "0 \<le> i \<Longrightarrow> nat i < length a \<Longrightarrow> wr_cell a i c = Inr (a[nat i := c])"
  by (simp add: wr_cell_def in_bounds_def)

lemma wr_ok: "0 \<le> i \<Longrightarrow> nat i < length a \<Longrightarrow> wr a i v = Inr (a[nat i := Some v])"
  by (simp add: wr_def wr_cell_ok)

lemma rd_Inr: "rd a i = Inr v \<longleftrightarrow> 0 \<le> i \<and> nat i < length a \<and> a ! nat i = Some v"
  by (auto simp: rd_def cell_def in_bounds_def split: option.splits)

lemma wr_Inr: "wr a i v = Inr b \<longleftrightarrow> 0 \<le> i \<and> nat i < length a \<and> b = a[nat i := Some v]"
  by (auto simp: wr_def wr_cell_def in_bounds_def)

lemma wr_out: "0 \<le> i \<Longrightarrow> length a \<le> nat i \<Longrightarrow> wr a i v = Inl (OutOfBounds i (length a))"
  by (auto simp: wr_def wr_cell_def in_bounds_def)

lemma rd_out: "0 \<le> i \<Longrightarrow> length a \<le> nat i \<Longrightarrow> rd a i = Inl (OutOfBounds i (length a))"
  by (auto simp: rd_def cell_def in_bounds_def)

lemma init_upto:
  assumes "0 \<le> N" and "length a = nat N"
  shows "for_loop 0 N (\<lambda>i p. wr p i i) a = Inr (map (Some \<circ> int) [0..<nat N])"
proof -
  let ?I = "\<lambda>i p. length p = nat N \<and> take (nat i) p = map (Some \<circ> int) [0..<nat i]"
  have "\<exists>t. for_loop 0 N (\<lambda>i p. wr p i i) a = Inr t \<and> ?I N t"
  proof (rule for_loop_rule[where I = ?I])
    show "?I 0 a" using assms by simp
    show "0 \<le> N" by fact
  next
    fix j t assume j: "0 \<le> j" "j < N" and t: "?I j t"
    have "wr t j j = Inr (t[nat j := Some j])" using j t by (simp add: wr_ok)
    moreover have "take (nat (j + 1)) (t[nat j := Some j]) = map (Some \<circ> int) [0..<nat (j + 1)]"
      using j t by (simp add: nat_add_distrib take_Suc_conv_app_nth)
    ultimately show "\<exists>t'. wr t j j = Inr t' \<and> ?I (j + 1) t'" using t by simp
  qed
  then show ?thesis by auto
qed



section \<open>Sampling without replacement\<close>

lemma length_swap [simp]: "length (swap i j xs) = length xs"
  by (simp add: swap_def)

lemma mset_swap_eq: "i < length xs \<Longrightarrow> j < length xs \<Longrightarrow> mset (swap i j xs) = mset xs"
  by (simp add: swap_def mset_swap)

lemma shuffle_pick_range:
  "i < nat N \<Longrightarrow> i \<le> shuffle_pick g N i \<and> shuffle_pick g N i < nat N"
proof -
  assume i: "i < nat N"
  then have "int_draws g i mod (nat N - i) < nat N - i" by simp
  with i show ?thesis unfolding shuffle_pick_def by linarith
qed

lemma forward_shuffle_Suc:
  "forward_shuffle pick N (Suc i) = swap i (pick i) (forward_shuffle pick N i)"
  by (simp add: forward_shuffle_def)

lemma length_forward_shuffle [simp]: "length (forward_shuffle pick N i) = N"
  by (induction i) (simp_all add: forward_shuffle_Suc, simp add: forward_shuffle_def)

lemma mset_forward_shuffle:
  "i \<le> N \<Longrightarrow> \<forall>j<N. pick j < N \<Longrightarrow> mset (forward_shuffle pick N i) = mset [0..<N]"
proof (induction i)
  case 0
  show ?case by (simp add: forward_shuffle_def)
next
  case (Suc i)
  then show ?case by (simp add: forward_shuffle_Suc mset_swap_eq)
qed

lemma skip_draws_0 [simp]: "skip_draws 0 g = g"
  by (simp add: skip_draws_def)

lemma rand_int_skip:
  "rand_int (skip_draws i g) = (int (int_draws g i), skip_draws (Suc i) g)"
  by (simp add: rand_int_def skip_draws_def)

lemma shuffle_loop:
  assumes N: "0 \<le> N"
  shows "for_loop 0 N
            (\<lambda>i (p, g).
               case rand_int g of (r, g') \<Rightarrow>
                 let j = r mod (N - i) + i in
                 bnd (rd p i) (\<lambda>temp.
                 bnd (rd p j) (\<lambda>pj.
                 bnd (wr p i pj) (\<lambda>p.
                 bnd (wr p j temp) (\<lambda>p. Inr (p, g'))))))
            (map (Some \<circ> int) [0..<nat N], g)
         = Inr (map (Some \<circ> int) (forward_shuffle (shuffle_pick g N) (nat N) (nat N)),
                skip_draws (nat N) g)"
    (is "for_loop 0 N ?body ?s = Inr ?r")
proof -
  let ?fs = "forward_shuffle (shuffle_pick g N) (nat N)"
  let ?I = "\<lambda>i s. s = (map (Some \<circ> int) (?fs (nat i)), skip_draws (nat i) g)"
  have "\<exists>t. for_loop 0 N ?body ?s = Inr t \<and> ?I N t"
  proof (rule for_loop_rule[where I = ?I])
    show "?I 0 ?s" by (simp add: forward_shuffle_def)
    show "0 \<le> N" by fact
  next
    fix j t assume j: "0 \<le> j" "j < N" and t: "?I j t"
    let ?i = "nat j"
    let ?xs = "?fs ?i"
    let ?k = "shuffle_pick g N ?i"
    have i: "?i < nat N" using j by simp
    have k: "?i \<le> ?k" "?k < nat N" using shuffle_pick_range[OF i] by auto
    have jk: "int (int_draws g ?i) mod (N - j) + j = int ?k"
      using j by (simp add: shuffle_pick_def zmod_int nat_diff_distrib' of_nat_diff)
    have r1: "rd (map (Some \<circ> int) ?xs) j = Inr (int (?xs ! ?i))"
      using j i by (simp add: rd_ok)
    have r2: "rd (map (Some \<circ> int) ?xs) (int ?k) = Inr (int (?xs ! ?k))"
      using k by (simp add: rd_ok)
    have w1: "wr (map (Some \<circ> int) ?xs) j (int (?xs ! ?k))
              = Inr (map (Some \<circ> int) (?xs[?i := ?xs ! ?k]))"
      using j i by (simp add: wr_ok map_update)
    have w2: "wr (map (Some \<circ> int) (?xs[?i := ?xs ! ?k])) (int ?k) (int (?xs ! ?i))
              = Inr (map (Some \<circ> int) (swap ?i ?k ?xs))"
      using k by (simp add: wr_ok map_update swap_def)
    have "?body j t = Inr (map (Some \<circ> int) (swap ?i ?k ?xs), skip_draws (Suc ?i) g)"
      using t by (simp add: rand_int_skip jk r1 r2 w1 w2)
    moreover have "nat (j + 1) = Suc ?i" using j by simp
    ultimately show "\<exists>t'. ?body j t = Inr t' \<and> ?I (j + 1) t'"
      by (simp add: forward_shuffle_Suc)
  qed
  then show ?thesis by auto
qed

lemma copy_prefix_loop:
  assumes "0 \<le> k" and "nat k \<le> length xs" and "length out = nat k"
  shows "for_loop 0 k (\<lambda>i out. bnd (rd (map Some xs) i) (\<lambda>v. wr out i v)) out
         = Inr (map Some (take (nat k) xs))"
    (is "for_loop 0 k ?body out = _")
proof -
  let ?I = "\<lambda>i t. length t = nat k \<and> take (nat i) t = map Some (take (nat i) xs)"
  have "\<exists>t. for_loop 0 k ?body out = Inr t \<and> ?I k t"
  proof (rule for_loop_rule[where I = ?I])
    show "?I 0 out" using assms by simp
    show "0 \<le> k" by fact
  next
    fix j t assume j: "0 \<le> j" "j < k" and t: "?I j t"
    have lt: "nat j < length xs" "nat j < length t" using j t assms by auto
    have "?body j t = Inr (t[nat j := Some (xs ! nat j)])"
      using j lt by (simp add: rd_ok wr_ok)
    moreover have "take (nat (j + 1)) (t[nat j := Some (xs ! nat j)])
        = map Some (take (nat (j + 1)) xs)"
      using j t lt by (simp add: nat_add_distrib take_Suc_conv_app_nth)
    ultimately show "\<exists>t'. ?body j t = Inr t' \<and> ?I (j + 1) t'" using t by simp
  qed
  then show ?thesis by auto
qed

lemma create_random_numbers_ok:
  assumes "0 \<le> k" and "k \<le> N" and "length out = nat k"
  shows "create_random_numbers N k out g
         = Inr (map (Some \<circ> int) (take (nat k) (forward_shuffle (shuffle_pick g N) (nat N) (nat N))),
                skip_draws (nat N) g)"
proof -
  have N: "0 \<le> N" using assms by simp
  show ?thesis
    unfolding create_random_numbers_def
    using assms
    by (simp add: new_array_ok[OF N] init_upto[OF N] shuffle_loop[OF N]
        copy_prefix_loop[where xs = "map int xs" for xs, simplified] take_map)
qed



section \<open>The random state in spin mode\<close>

lemma slot_update:
  "0 \<le> i \<Longrightarrow> 0 \<le> j \<Longrightarrow> nat i < length xs \<Longrightarrow> slot (xs[nat i := v]) j = (if j = i then v else slot xs j)"
  by (auto simp: slot_def)

lemma for_loop2_rule:
  assumes "I i s"
    and "\<And>j t. i \<le> j \<Longrightarrow> j < n \<Longrightarrow> I j t \<Longrightarrow> \<exists>t'. body j t = Inr t' \<and> I (j + 2) t'"
  shows "\<exists>t j. for_loop2 i n body s = Inr t \<and> I j t \<and> n \<le> j \<and> (j = i \<or> j < n + 2)"
  using assms
proof (induction i n body s rule: for_loop2.induct)
  case (1 i n body s)
  show ?case
  proof (cases "i < n")
    case True
    from 1(3)[of i s] True 1(2) obtain t' where t': "body i s = Inr t'" "I (i + 2) t'"
      by auto
    have "\<exists>t j. for_loop2 (i + 2) n body t' = Inr t \<and> I j t \<and> n \<le> j \<and> (j = i + 2 \<or> j < n + 2)"
      using True t' 1(3) by (intro 1(1)) auto
    then obtain t j where "for_loop2 (i + 2) n body t' = Inr t" "I j t" "n \<le> j" "j = i + 2 \<or> j < n + 2"
      by blast
    then show ?thesis using True t' by (subst for_loop2.simps) auto
  next
    case False
    with 1(2) show ?thesis by (subst for_loop2.simps) auto
  qed
qed

lemma for_loop2_fail:
  assumes "I i s" and "i \<le> k" and "k < n" and "even (k - i)"
    and "\<And>j t. i \<le> j \<Longrightarrow> j < k \<Longrightarrow> I j t \<Longrightarrow> \<exists>t'. body j t = Inr t' \<and> I (j + 2) t'"
    and "\<And>t. I k t \<Longrightarrow> body k t = Inl e"
  shows "for_loop2 i n body s = Inl e"
  using assms
proof (induction i n body s rule: for_loop2.induct)
  case (1 i n body s)
  show ?case
  proof (cases "i < k")
    case True
    from 1(6)[of i s] True 1(2) obtain t' where t': "body i s = Inr t'" "I (i + 2) t'"
      by auto
    have "k \<noteq> i + 1" using 1(5) by auto
    then have le: "i + 2 \<le> k" using True by simp
    have "even (k - (i + 2))" using 1(5) by simp
    then have "for_loop2 (i + 2) n body t' = Inl e"
      using True t' 1(4,6,7) le by (intro 1(1)) auto
    then show ?thesis using True t' 1(4) by (subst for_loop2.simps) simp
  next
    case False
    with 1(3) have "i = k" by simp
    with 1(2,4,7) show ?thesis by (subst for_loop2.simps) simp
  qed
qed



lemma wr_slot:
  assumes "wr a i v = Inr b" and "0 \<le> j"
  shows "slot b j = (if j = i then Some v else slot a j)" and "length b = length a"
  using assms by (auto simp: wr_Inr slot_def)

lemma spin_body_ok:
  fixes re im :: "real array"
  assumes j: "0 \<le> j" "j + 1 < N" and len: "length re = nat N" "length im = nat N"
  shows "\<exists>re' im'.
    bnd (wr re j (cos ph)) (\<lambda>re.
    bnd (wr im j (sin ph)) (\<lambda>im.
    bnd (wr re (j + 1) 0) (\<lambda>re.
    bnd (wr im (j + 1) 0) (\<lambda>im.
    Inr (re, im, g')))))  = Inr (re', im', g')
    \<and> length re' = nat N \<and> length im' = nat N \<and> spin_ok re' im' j
    \<and> (\<forall>n. 0 \<le> n \<and> n \<noteq> j \<and> n \<noteq> j + 1 \<longrightarrow> slot re' n = slot re n \<and> slot im' n = slot im n)"
proof -
  have b: "nat j < nat N" "nat (j + 1) < nat N" "0 \<le> j + 1" using j by auto
  have "sin ph ^ 2 + cos ph ^ 2 = 1" by simp
  then have u: "(cos ph)\<^sup>2 + (sin ph)\<^sup>2 = 1" by (simp add: add.commute)
  let ?re = "re[nat j := Some (cos ph), nat (j + 1) := Some 0]"
  let ?im = "im[nat j := Some (sin ph), nat (j + 1) := Some 0]"
  have s: "slot ?re n = (if n = j + 1 then Some 0 else if n = j then Some (cos ph) else slot re n)"
    "slot ?im n = (if n = j + 1 then Some 0 else if n = j then Some (sin ph) else slot im n)"
    if "0 \<le> n" for n
    using that j b len by (simp_all add: slot_update)
  have "spin_ok ?re ?im j"
    using s[of j] s[of "j + 1"] j u by (simp add: spin_ok_def)
  moreover have "\<forall>n. 0 \<le> n \<and> n \<noteq> j \<and> n \<noteq> j + 1 \<longrightarrow> slot ?re n = slot re n \<and> slot ?im n = slot im n"
    using s by simp
  ultimately show ?thesis
    using j b len by (simp add: wr_ok)
qed

lemma spin_body_fail:
  fixes re im :: "real array"
  assumes j: "0 \<le> j" "j + 1 = N" and len: "length re = nat N" "length im = nat N"
  shows "bnd (wr re j (cos ph)) (\<lambda>re.
    bnd (wr im j (sin ph)) (\<lambda>im.
    bnd (wr re (j + 1) 0) (\<lambda>re.
    bnd (wr im (j + 1) 0) (\<lambda>im.
    Inr (re, im, g')))))  = Inl (OutOfBounds N (nat N))"
proof -
  have b: "nat j < nat N" "0 \<le> j + 1" using j by auto
  show ?thesis using j b len by (simp add: wr_ok wr_out)
qed

lemma spin_ok_cong:
  "0 \<le> n \<Longrightarrow> slot re' n = slot re n \<Longrightarrow> slot im' n = slot im n \<Longrightarrow>
   slot re' (n + 1) = slot re (n + 1) \<Longrightarrow> slot im' (n + 1) = slot im (n + 1) \<Longrightarrow>
   spin_ok re im n \<Longrightarrow> spin_ok re' im' n"
  by (simp add: spin_ok_def)

lemma initialize_state_spin_even:
  assumes "calculate_spin p" and "0 \<le> number_of_atoms mdl" and "even (number_of_atoms mdl)"
  shows "\<exists>re im g'. initialize_state p mdl g = Inr (re, im, g')
     \<and> length re = nat (number_of_atoms mdl) \<and> length im = nat (number_of_atoms mdl)
     \<and> (\<forall>n. 0 \<le> n \<and> n < number_of_atoms mdl \<and> even n \<longrightarrow> spin_ok re im n)"
proof -
  let ?N = "number_of_atoms mdl"
  let ?body = "(\<lambda>n (re, im, g). case uniform_real 0 (2 * PI) g of (random_phase, g') \<Rightarrow>
            bnd (wr re n (cos random_phase)) (\<lambda>re.
            bnd (wr im n (sin random_phase)) (\<lambda>im.
            bnd (wr re (n + 1) 0) (\<lambda>re.
            bnd (wr im (n + 1) 0) (\<lambda>im.
            Inr (re, im, g'))))))"
  let ?s = "(replicate (nat ?N) None, replicate (nat ?N) None, g)"
  have "\<exists>t j. for_loop2 0 ?N ?body ?s = Inr t \<and> spin_inv ?N j t \<and> ?N \<le> j \<and> (j = 0 \<or> j < ?N + 2)"
  proof (rule for_loop2_rule[where I = "spin_inv ?N"])
    show "spin_inv ?N 0 ?s" by (auto simp: spin_inv_def)
  next
    fix j t assume j: "0 \<le> j" "j < ?N" and inv: "spin_inv ?N j t"
    obtain re im g0 where t: "t = (re, im, g0)" by (cases t)
    obtain ph g1 where u: "uniform_real 0 (2 * PI) g0 = (ph, g1)" by (cases "uniform_real 0 (2 * PI) g0")
    have ev: "even j" and len: "length re = nat ?N" "length im = nat ?N"
      and old: "\<And>n. 0 \<le> n \<Longrightarrow> n < j \<Longrightarrow> even n \<Longrightarrow> spin_ok re im n"
      using inv by (auto simp: spin_inv_def t)
    have "j + 1 \<noteq> ?N" using ev assms(3) by presburger
    then have j1: "j + 1 < ?N" using j by simp
    from spin_body_ok[OF j(1) j1 len, of ph g1]
    obtain re' im' where r: "?body j t = Inr (re', im', g1)"
      and len': "length re' = nat ?N" "length im' = nat ?N" and ok: "spin_ok re' im' j"
      and same: "\<And>n. 0 \<le> n \<Longrightarrow> n \<noteq> j \<Longrightarrow> n \<noteq> j + 1 \<Longrightarrow> slot re' n = slot re n \<and> slot im' n = slot im n"
      unfolding t by (auto simp: u)
    have "spin_ok re' im' n" if n: "0 \<le> n" "n < j + 2" "even n" for n
    proof (cases "n = j")
      case True then show ?thesis using ok by simp
    next
      case False
      have "n \<noteq> j + 1" using ev n(3) by presburger
      with False n have lt: "n < j" "n + 1 < j" using ev n(3) by presburger+
      show ?thesis
        using n lt same[of n] same[of "n + 1"] old[of n]
        by (intro spin_ok_cong[of n re' re im' im]) auto
    qed
    then have "spin_inv ?N (j + 2) (re', im', g1)"
      using ev j len' by (auto simp: spin_inv_def)
    with r show "\<exists>t'. ?body j t = Inr t' \<and> spin_inv ?N (j + 2) t'" by blast
  qed
  then obtain t j where r: "for_loop2 0 ?N ?body ?s = Inr t" and inv: "spin_inv ?N j t"
    and jb: "?N \<le> j" "j = 0 \<or> j < ?N + 2" by blast
  obtain re im g' where t: "t = (re, im, g')" by (cases t)
  have "even j" using inv by (simp add: spin_inv_def t)
  then have "j \<noteq> ?N + 1" using assms(3) by presburger
  then have "j = ?N" using jb assms(2) by auto
  then show ?thesis
    using r inv assms(1,2) unfolding initialize_state_def t
    by (simp add: new_array_ok spin_inv_def)
qed

lemma initialize_state_spin_odd:
  assumes "calculate_spin p" and "0 \<le> number_of_atoms mdl" and "odd (number_of_atoms mdl)"
  shows "initialize_state p mdl g
         = Inl (OutOfBounds (number_of_atoms mdl) (nat (number_of_atoms mdl)))"
proof -
  let ?N = "number_of_atoms mdl"
  let ?body = "(\<lambda>n (re, im, g). case uniform_real 0 (2 * PI) g of (random_phase, g') \<Rightarrow>
            bnd (wr re n (cos random_phase)) (\<lambda>re.
            bnd (wr im n (sin random_phase)) (\<lambda>im.
            bnd (wr re (n + 1) 0) (\<lambda>re.
            bnd (wr im (n + 1) 0) (\<lambda>im.
            Inr (re, im, g'))))))"
  let ?s = "(replicate (nat ?N) None, replicate (nat ?N) None, g)"
  let ?I = "\<lambda>j::int. \<lambda>(re :: real array, im :: real array, g :: generator).
              0 \<le> j \<and> length re = nat ?N \<and> length im = nat ?N"
  have N1: "0 \<le> ?N - 1" using assms(2,3) by presburger
  have "for_loop2 0 ?N ?body ?s = Inl (OutOfBounds ?N (nat ?N))"
  proof (rule for_loop2_fail[where I = ?I and k = "?N - 1"])
    show "?I 0 ?s" by simp
    show "0 \<le> ?N - 1" by (rule N1)
    show "?N - 1 < ?N" by simp
    show "even (?N - 1 - 0)" using assms(3) by simp
  next
    fix j t assume j: "0 \<le> j" "j < ?N - 1" and inv: "?I j t"
    obtain re im g0 where t: "t = (re, im, g0)" by (cases t)
    obtain ph g1 where u: "uniform_real 0 (2 * PI) g0 = (ph, g1)" by (cases "uniform_real 0 (2 * PI) g0")
    have len: "length re = nat ?N" "length im = nat ?N" using inv by (auto simp: t)
    have j1: "j + 1 < ?N" using j by simp
    from spin_body_ok[OF j(1) j1 len, of ph g1]
    obtain re' im' where r: "?body j t = Inr (re', im', g1)"
      and len': "length re' = nat ?N" "length im' = nat ?N"
      unfolding t by (auto simp: u)
    then show "\<exists>t'. ?body j t = Inr t' \<and> ?I (j + 2) t'" using j by auto
  next
    fix t assume inv: "?I (?N - 1) t"
    obtain re im g0 where t: "t = (re, im, g0)" by (cases t)
    obtain ph g1 where u: "uniform_real 0 (2 * PI) g0 = (ph, g1)" by (cases "uniform_real 0 (2 * PI) g0")
    have len: "length re = nat ?N" "length im = nat ?N" using inv by (auto simp: t)
    from spin_body_fail[OF N1 _ len, of ph g1]
    show "?body (?N - 1) t = Inl (OutOfBounds ?N (nat ?N))"
      unfolding t by (simp add: u)
  qed
  then show ?thesis
    using assms(1,2) unfolding initialize_state_def by (simp add: new_array_ok)
qed



section \<open>Marking the vacancies\<close>

lemma fill_loop:
  assumes "0 \<le> N" and "length a = nat N"
  shows "for_loop 0 N (\<lambda>n a. wr a n v) a = Inr (replicate (nat N) (Some v))"
proof -
  let ?I = "\<lambda>i p. length p = nat N \<and> take (nat i) p = replicate (nat i) (Some v)"
  have "\<exists>t. for_loop 0 N (\<lambda>n a. wr a n v) a = Inr t \<and> ?I N t"
  proof (rule for_loop_rule[where I = ?I])
    show "?I 0 a" using assms by simp
    show "0 \<le> N" by fact
  next
    fix j t assume j: "0 \<le> j" "j < N" and t: "?I j t"
    have "wr t j v = Inr (t[nat j := Some v])" using j t by (simp add: wr_ok)
    moreover have "take (nat (j + 1)) (t[nat j := Some v]) = replicate (nat (j + 1)) (Some v)"
      using j t by (simp add: nat_add_distrib take_Suc_conv_app_nth replicate_append_same)
    ultimately show "\<exists>t'. wr t j v = Inr t' \<and> ?I (j + 1) t'" using t by simp
  qed
  then show ?thesis by auto
qed

lemma mark_loop:
  assumes "0 \<le> k" and "length vs = nat k" and "\<forall>v \<in> set vs. v < N"
  shows "for_loop 0 k (\<lambda>n a. bnd (rd (map (Some \<circ> int) vs) n) (\<lambda>v. wr a v (1::int)))
           (replicate N (Some 0))
         = Inr (map (\<lambda>j. Some (if j \<in> set vs then 1 else 0)) [0..<N])"
    (is "for_loop 0 k ?body ?s = _")
proof -
  let ?I = "\<lambda>i t. t = map (\<lambda>j. Some (if j \<in> set (take (nat i) vs) then 1 else (0::int))) [0..<N]"
  have "\<exists>t. for_loop 0 k ?body ?s = Inr t \<and> ?I k t"
  proof (rule for_loop_rule[where I = ?I])
    show "?I 0 ?s" by (simp add: map_replicate_const)
    show "0 \<le> k" by fact
  next
    fix j t assume j: "0 \<le> j" "j < k" and t: "?I j t"
    have lt: "nat j < length vs" using j assms by simp
    then have vN: "vs ! nat j < N" using assms(3) by simp
    have r: "rd (map (Some \<circ> int) vs) j = Inr (int (vs ! nat j))"
      using j lt by (simp add: rd_ok)
    have w: "wr t (int (vs ! nat j)) 1 = Inr (t[vs ! nat j := Some 1])"
      using vN t by (simp add: wr_ok)
    have "t[vs ! nat j := Some 1]
          = map (\<lambda>i. Some (if i \<in> set (take (nat (j + 1)) vs) then 1 else 0)) [0..<N]"
      using j lt vN t
      by (auto simp: nat_add_distrib take_Suc_conv_app_nth list_eq_iff_nth_eq nth_list_update)
    then show "\<exists>t'. ?body j t = Inr t' \<and> ?I (j + 1) t'" by (simp add: r w)
  qed
  then show ?thesis using assms by auto
qed

lemma forward_shuffle_perm:
  "mset (forward_shuffle (shuffle_pick g N) (nat N) (nat N)) = mset [0..<nat N]"
  by (rule mset_forward_shuffle) (auto dest: shuffle_pick_range)

lemma vacancy_sites_props:
  assumes "0 \<le> k" and "k \<le> N"
  shows "length (vacancy_sites g N k) = nat k" and "distinct (vacancy_sites g N k)"
    and "set (vacancy_sites g N k) \<subseteq> {0..<nat N}"
proof -
  let ?perm = "forward_shuffle (shuffle_pick g N) (nat N) (nat N)"
  have m: "mset ?perm = mset [0..<nat N]" by (rule forward_shuffle_perm)
  show "length (vacancy_sites g N k) = nat k" using assms by (simp add: vacancy_sites_def)
  have "distinct ?perm" using m by (metis distinct_upt mset_eq_imp_distinct_iff)
  then show "distinct (vacancy_sites g N k)" by (simp add: vacancy_sites_def)
  have "set ?perm = {0..<nat N}" using m by (metis mset_eq_setD set_upt)
  then show "set (vacancy_sites g N k) \<subseteq> {0..<nat N}"
    unfolding vacancy_sites_def using set_take_subset by fastforce
qed

lemma specify_vacancies_ok:
  assumes "0 \<le> k" and "k \<le> N" and "length is_vacancy = nat N"
  shows "specify_vacancies k is_vacancy N g
         = Inr (map (\<lambda>j. Some (if j \<in> set (vacancy_sites g N k) then 1 else 0)) [0..<nat N],
                skip_draws (nat N) g)"
proof -
  have N: "0 \<le> N" using assms by simp
  have lt: "\<forall>v \<in> set (vacancy_sites g N k). v < nat N"
    using vacancy_sites_props(3)[OF assms(1,2), of g] by auto
  show ?thesis
    unfolding specify_vacancies_def
    using assms N
    by (simp add: new_array_ok create_random_numbers_ok fill_loop
        mark_loop[OF assms(1) vacancy_sites_props(1)[OF assms(1,2)] lt] vacancy_sites_def[symmetric])
qed

lemma create_random_numbers_overrun:
  assumes "0 \<le> N" and "N < k" and "length out = nat k"
  shows "create_random_numbers N k out g = Inl (OutOfBounds N (nat N))"
proof -
  let ?xs = "map int (forward_shuffle (shuffle_pick g N) (nat N) (nat N))"
  let ?body = "\<lambda>i out. bnd (rd (map Some ?xs) i) (\<lambda>v. wr out i v)"
  have "for_loop 0 k ?body out = Inl (OutOfBounds N (nat N))"
  proof (rule for_loop_fail[where I = "\<lambda>i t. length t = nat k" and k = N])
    show "length out = nat k" by fact
    show "0 \<le> N" by fact
    show "N < k" by fact
  next
    fix j t assume j: "0 \<le> j" "j < N" and t: "length (t :: int array) = nat k"
    have "?body j t = Inr (t[nat j := Some (?xs ! nat j)])"
      using j t assms by (simp add: rd_ok wr_ok)
    then show "\<exists>t'. ?body j t = Inr t' \<and> length t' = nat k" using t by simp
  next
    fix t :: "int array" assume "length t = nat k"
    have "rd (map Some ?xs) N = Inl (OutOfBounds N (length (map Some ?xs)))"
      using assms by (intro rd_out) simp_all
    then show "?body N t = Inl (OutOfBounds N (nat N))" by simp
  qed
  then show ?thesis
    unfolding create_random_numbers_def
    using assms by (simp add: new_array_ok init_upto shuffle_loop)
qed

lemma specify_vacancies_overrun:
  assumes "0 \<le> N" and "N < k"
  shows "specify_vacancies k is_vacancy N g = Inl (OutOfBounds N (nat N))"
  unfolding specify_vacancies_def
  using assms by (simp add: new_array_ok create_random_numbers_overrun)

lemma fatal_if_Inr [simp]: "fatal_if c msg = Inr u \<longleftrightarrow> \<not> c"
  by (simp add: fatal_if_def)

lemma fatal_if_False [simp]: "fatal_if False msg = Inr ()"
  by (simp add: fatal_if_def)

lemma verify_parameters_vacancies:
  assumes "verify_parameters p = Inr p'" and "0 < k"
  shows "\<exists>p''. verify_parameters (p\<lparr>number_of_vacancies := k\<rparr>) = Inr p''"
  using assms
  by (auto simp: verify_parameters_def Let_def bnd_eq_Inr split: if_splits)



section \<open>Claims on sampling, bounds and the random state\<close>

text \<open>
  Claim C7. For \<open>0 < k \<le> N\<close>, \<^verbatim>\<open>create_random_numbers(N, k, out)\<close> returns without error and
  writes into \<open>out\<close> the first \<open>k\<close> entries of a list \<open>perm\<close> that the forward shuffle
  builds from \<open>0, \<dots>, N - 1\<close>: step \<open>i\<close> swaps the positions \<open>i\<close> and \<open>shuffle_pick g N i\<close>,
  which lies in \<open>[i, N)\<close>. The list \<open>perm\<close> is a permutation of \<open>[0, N)\<close>, so the \<open>k\<close> numbers
  written are pairwise distinct and lie in \<open>[0, N)\<close>: the sites are sampled without
  replacement.
\<close>

theorem create_random_numbers_without_replacement:
  assumes "0 < k" and "k \<le> N" and "length out = nat k"
  shows "\<exists>perm. create_random_numbers N k out g
                 = Inr (map (Some \<circ> int) (take (nat k) perm), skip_draws (nat N) g)
     \<and> perm = forward_shuffle (shuffle_pick g N) (nat N) (nat N)
     \<and> (\<forall>i<nat N. i \<le> shuffle_pick g N i \<and> shuffle_pick g N i < nat N)
     \<and> mset perm = mset [0..<nat N]
     \<and> length (take (nat k) perm) = nat k
     \<and> distinct (take (nat k) perm)
     \<and> set (take (nat k) perm) \<subseteq> {0..<nat N}"
proof -
  have k: "0 \<le> k" using assms by simp
  show ?thesis
    using create_random_numbers_ok[OF k assms(2,3), of g] forward_shuffle_perm[of g N]
      vacancy_sites_props[OF k assms(2), of g] shuffle_pick_range[of _ N g]
    by (simp add: vacancy_sites_def)
qed

lemma example_shuffle:
  "forward_shuffle (shuffle_pick example_generator 4) 4 4 = [1, 3, 0, 2]"
  by (simp add: forward_shuffle_def shuffle_pick_def example_generator_def swap_def
      upt_conv_Cons)

theorem create_random_numbers_without_replacement_witness:
  "(0::int) < 2 \<and> (2::int) \<le> 4 \<and> length [None :: int option, None] = nat 2
   \<and> create_random_numbers 4 2 [None, None] example_generator
       = Inr ([Some 1, Some 3], skip_draws 4 example_generator)
   \<and> mset (forward_shuffle (shuffle_pick example_generator 4) 4 4) = mset [0..<4]"
  using create_random_numbers_without_replacement[of 2 4 "[None, None]" example_generator]
  by (simp add: example_shuffle)

text \<open>
  Claim C9. In spin mode \<^verbatim>\<open>initialize_state\<close> visits the even indices \<open>n\<close>, writes an
  amplitude of modulus one at \<open>n\<close> and zero at \<open>n + 1\<close>. If \<^verbatim>\<open>number_of_atoms\<close> is even,
  every write is inside the two buffers of that length; if it is odd, the last iteration
  writes at index \<^verbatim>\<open>number_of_atoms\<close>, one past the end. So the writes stay in bounds exactly
  when \<^verbatim>\<open>number_of_atoms\<close> is even.
\<close>

theorem initialize_state_spin_bounds:
  assumes "calculate_spin p" and "0 \<le> number_of_atoms mdl"
  shows "(even (number_of_atoms mdl) \<longrightarrow>
            (\<exists>re im g'. initialize_state p mdl g = Inr (re, im, g')
               \<and> length re = nat (number_of_atoms mdl) \<and> length im = nat (number_of_atoms mdl)
               \<and> (\<forall>n. 0 \<le> n \<and> n < number_of_atoms mdl \<and> even n \<longrightarrow> spin_ok re im n)))
       \<and> (odd (number_of_atoms mdl) \<longrightarrow>
            initialize_state p mdl g
            = Inl (OutOfBounds (number_of_atoms mdl) (nat (number_of_atoms mdl))))
       \<and> ((\<exists>r. initialize_state p mdl g = Inr r) \<longleftrightarrow> even (number_of_atoms mdl))"
proof -
  have e: "even (number_of_atoms mdl) \<Longrightarrow>
            (\<exists>re im g'. initialize_state p mdl g = Inr (re, im, g')
               \<and> length re = nat (number_of_atoms mdl) \<and> length im = nat (number_of_atoms mdl)
               \<and> (\<forall>n. 0 \<le> n \<and> n < number_of_atoms mdl \<and> even n \<longrightarrow> spin_ok re im n))"
    using initialize_state_spin_even[OF assms] by simp
  have o: "odd (number_of_atoms mdl) \<Longrightarrow> initialize_state p mdl g
            = Inl (OutOfBounds (number_of_atoms mdl) (nat (number_of_atoms mdl)))"
    using initialize_state_spin_odd[OF assms] by simp
  have "(\<exists>r. initialize_state p mdl g = Inr r) \<longleftrightarrow> even (number_of_atoms mdl)"
  proof (cases "even (number_of_atoms mdl)")
    case True
    with e show ?thesis by blast
  next
    case False
    with o show ?thesis by simp
  qed
  with e o show ?thesis by blast
qed

theorem initialize_state_spin_bounds_witness:
  "calculate_spin (example_parameters\<lparr>calculate_spin := True\<rparr>)
   \<and> 0 \<le> number_of_atoms (empty_model\<lparr>number_of_atoms := 2\<rparr>)
   \<and> 0 \<le> number_of_atoms (empty_model\<lparr>number_of_atoms := 3\<rparr>)
   \<and> (\<exists>r. initialize_state (example_parameters\<lparr>calculate_spin := True\<rparr>)
             (empty_model\<lparr>number_of_atoms := 2\<rparr>) example_generator = Inr r)
   \<and> initialize_state (example_parameters\<lparr>calculate_spin := True\<rparr>)
        (empty_model\<lparr>number_of_atoms := 3\<rparr>) example_generator = Inl (OutOfBounds 3 3)"
  using initialize_state_spin_bounds[of "example_parameters\<lparr>calculate_spin := True\<rparr>"
      "empty_model\<lparr>number_of_atoms := 2\<rparr>" example_generator]
    initialize_state_spin_bounds[of "example_parameters\<lparr>calculate_spin := True\<rparr>"
      "empty_model\<lparr>number_of_atoms := 3\<rparr>" example_generator]
  by (simp add: example_parameters_def empty_model_def)

text \<open>
  Claim C10. If \<open>0 < k < N\<close>, where \<open>k\<close> is \<^verbatim>\<open>number_of_vacancies\<close> and \<open>N\<close> the number of
  pristine atoms, then \<^verbatim>\<open>create_random_numbers\<close> and \<^verbatim>\<open>specify_vacancies\<close> return without
  error: every access to \<^verbatim>\<open>permuted_numbers\<close>, to the output, to \<^verbatim>\<open>is_vacancy\<close> and to
  \<^verbatim>\<open>vacancy_indices\<close> is in bounds. The bound from above is needed: for \<open>k > N\<close> the copy
  out of \<^verbatim>\<open>permuted_numbers\<close> reads index \<open>N\<close>, past the end. And the code does not check
  it: \<^verbatim>\<open>verify_parameters\<close> accepts every positive number of vacancies.
\<close>

theorem vacancy_construction_in_bounds:
  "(0 < k \<and> k < N \<and> length is_vacancy = nat N \<and> length out = nat k \<longrightarrow>
      (\<exists>r. create_random_numbers N k out g = Inr r)
      \<and> (\<exists>r. specify_vacancies k is_vacancy N g = Inr r))
   \<and> (0 \<le> N \<and> N < k \<longrightarrow> specify_vacancies k is_vacancy N g = Inl (OutOfBounds N (nat N)))
   \<and> (verify_parameters p = Inr p' \<and> 0 < k \<longrightarrow>
        (\<exists>p''. verify_parameters (p\<lparr>number_of_vacancies := k\<rparr>) = Inr p''))"
  using create_random_numbers_ok[of k N out g] specify_vacancies_ok[of k N is_vacancy g]
    specify_vacancies_overrun[of N k is_vacancy g] verify_parameters_vacancies[of p p' k]
  by auto

lemma verify_example:
  "verify_parameters (example_parameters\<lparr>has_vacancy_disorder := True, number_of_vacancies := 1\<rparr>)
   = Inr (example_parameters\<lparr>has_vacancy_disorder := True, number_of_vacancies := 1\<rparr>)"
  by (simp add: verify_parameters_def example_parameters_def)

theorem vacancy_construction_in_bounds_witness:
  "(0::int) < 1 \<and> (1::int) < 4 \<and> length (replicate 4 (None :: int option)) = nat 4
   \<and> length [None :: int option] = nat 1
   \<and> (\<exists>r. create_random_numbers 4 1 [None] example_generator = Inr r)
   \<and> (\<exists>r. specify_vacancies 1 (replicate 4 None) 4 example_generator = Inr r)
   \<and> (0::int) \<le> 4 \<and> (4::int) < 5
   \<and> specify_vacancies 5 (replicate 4 None) 4 example_generator = Inl (OutOfBounds 4 4)
   \<and> (\<exists>p''. verify_parameters
               (example_parameters\<lparr>has_vacancy_disorder := True, number_of_vacancies := 5\<rparr>)
             = Inr p'')"
  using vacancy_construction_in_bounds[of 1 4 "replicate 4 None" "[None]" example_generator
      "example_parameters\<lparr>has_vacancy_disorder := True, number_of_vacancies := 1\<rparr>"
      "example_parameters\<lparr>has_vacancy_disorder := True, number_of_vacancies := 1\<rparr>"]
    vacancy_construction_in_bounds[of 5 4 "replicate 4 None" "[None]" example_generator
      "example_parameters\<lparr>has_vacancy_disorder := True, number_of_vacancies := 1\<rparr>"
      "example_parameters\<lparr>has_vacancy_disorder := True, number_of_vacancies := 1\<rparr>"]
  by (simp add: verify_example)

section \<open>Removing the vacancies\<close>

lemma cell_Inr: "cell a i = Inr c \<longleftrightarrow> 0 \<le> i \<and> nat i < length a \<and> c = a ! nat i"
  by (auto simp: cell_def in_bounds_def)

lemma wr_cell_Inr:
  "wr_cell a i c = Inr b \<longleftrightarrow> 0 \<le> i \<and> nat i < length a \<and> b = a[nat i := c]"
  by (auto simp: wr_cell_def in_bounds_def)

lemma copy_loop:
  assumes "0 \<le> n" and "length src = nat n" and "length dst = nat n"
  shows "for_loop 0 n (\<lambda>i a. bnd (cell src i) (\<lambda>c. wr_cell a i c)) dst = Inr src"
    (is "for_loop 0 n ?body dst = _")
proof -
  let ?I = "\<lambda>i t. length t = nat n \<and> take (nat i) t = take (nat i) src"
  have "\<exists>t. for_loop 0 n ?body dst = Inr t \<and> ?I n t"
  proof (rule for_loop_rule[where I = ?I])
    show "?I 0 dst" using assms by simp
    show "0 \<le> n" by fact
  next
    fix j t assume j: "0 \<le> j" "j < n" and t: "?I j t"
    have lt: "nat j < length src" "nat j < length t" using j t assms by auto
    have "?body j t = Inr (t[nat j := src ! nat j])"
      using j lt by (simp add: cell_ok wr_cell_ok)
    moreover have "take (nat (j + 1)) (t[nat j := src ! nat j]) = take (nat (j + 1)) src"
      using j t lt by (simp add: nat_add_distrib take_Suc_conv_app_nth)
    ultimately show "\<exists>t'. ?body j t = Inr t' \<and> ?I (j + 1) t'" using t by simp
  qed
  then show ?thesis using assms by auto
qed

lemma copy4_loop:
  assumes "0 \<le> n" and "length s1 = nat n" and "length s2 = nat n" and "length s3 = nat n"
    and "length s4 = nat n" and "length d1 = nat n" and "length d2 = nat n"
    and "length d3 = nat n" and "length d4 = nat n"
  shows "for_loop 0 n
            (\<lambda>m (nl, hr, hi, xs).
               bnd (cell s1 m) (\<lambda>c. bnd (wr_cell nl m c) (\<lambda>nl.
               bnd (cell s2 m) (\<lambda>c. bnd (wr_cell hr m c) (\<lambda>hr.
               bnd (cell s3 m) (\<lambda>c. bnd (wr_cell hi m c) (\<lambda>hi.
               bnd (cell s4 m) (\<lambda>c. bnd (wr_cell xs m c) (\<lambda>xs.
               Inr (nl, hr, hi, xs))))))))))
            (d1, d2, d3, d4) = Inr (s1, s2, s3, s4)"
    (is "for_loop 0 n ?body ?d = _")
proof -
  let ?I = "\<lambda>i (t1, t2, t3, t4). length t1 = nat n \<and> take (nat i) t1 = take (nat i) s1
             \<and> length t2 = nat n \<and> take (nat i) t2 = take (nat i) s2
             \<and> length t3 = nat n \<and> take (nat i) t3 = take (nat i) s3
             \<and> length t4 = nat n \<and> take (nat i) t4 = take (nat i) s4"
  have "\<exists>t. for_loop 0 n ?body ?d = Inr t \<and> ?I n t"
  proof (rule for_loop_rule[where I = ?I])
    show "?I 0 ?d" using assms by simp
    show "0 \<le> n" by fact
  next
    fix j t assume j: "0 \<le> j" "j < n" and t: "?I j t"
    obtain t1 t2 t3 t4 where tt: "t = (t1, t2, t3, t4)" by (cases t)
    have lt: "nat j < nat n" using j by simp
    have "?body j t = Inr (t1[nat j := s1 ! nat j], t2[nat j := s2 ! nat j],
                           t3[nat j := s3 ! nat j], t4[nat j := s4 ! nat j])"
      using j lt t assms unfolding tt by (simp add: cell_ok wr_cell_ok)
    moreover have "?I (j + 1) (t1[nat j := s1 ! nat j], t2[nat j := s2 ! nat j],
                           t3[nat j := s3 ! nat j], t4[nat j := s4 ! nat j])"
      using j t lt assms unfolding tt by (simp add: nat_add_distrib take_Suc_conv_app_nth)
    ultimately show "\<exists>t'. ?body j t = Inr t' \<and> ?I (j + 1) t'" by blast
  qed
  then show ?thesis using assms by auto
qed

lemma new_index_0 [simp]: "new_index isv 0 = 0"
  by (simp add: new_index_def)

lemma new_index_step:
  "0 \<le> n \<Longrightarrow> new_index isv (n + 1) = new_index isv n + (if slot isv n = Some 0 then 1 else 0)"
  by (simp add: new_index_def nat_add_distrib slot_def)

lemma new_index_nonneg: "0 \<le> new_index isv n"
  by (simp add: new_index_def)

lemma new_index_mono: "n \<le> n' \<Longrightarrow> new_index isv n \<le> new_index isv n'"
proof -
  assume "n \<le> n'"
  then have "[0..<nat n'] = [0..<nat n] @ [nat n..<nat n']"
    by (metis le_add_diff_inverse nat_mono upt_add_eq_append zero_le)
  then show ?thesis by (simp add: new_index_def)
qed

lemma new_index_less:
  assumes "0 \<le> n" and "n < n'" and "slot isv n = Some 0"
  shows "new_index isv n < new_index isv n'"
proof -
  have "new_index isv (n + 1) \<le> new_index isv n'" using assms by (intro new_index_mono) simp
  then show ?thesis using assms by (simp add: new_index_step)
qed

lemma new_index_inj:
  assumes "0 \<le> n" "0 \<le> n'" "slot isv n = Some 0" "slot isv n' = Some 0"
    and "new_index isv n = new_index isv n'"
  shows "n = n'"
  using assms new_index_less[of n n' isv] new_index_less[of n' n isv]
  by (cases n n' rule: linorder_cases) auto

lemma find_new_atom_index_ok:
  assumes "0 \<le> N" and "length isv = nat N" and "length a0 = nat N"
    and "\<forall>n. 0 \<le> n \<and> n < N \<longrightarrow> (\<exists>v. slot isv n = Some v)"
  shows "\<exists>nai. find_new_atom_index isv a0 N = Inr nai \<and> length nai = nat N
     \<and> (\<forall>n. 0 \<le> n \<and> n < N \<and> slot isv n = Some 0 \<longrightarrow> slot nai n = Some (new_index isv n))"
proof -
  let ?body = "\<lambda>n (a, count).
               bnd (rd isv n) (\<lambda>v.
               if v = 0 then bnd (wr a n count) (\<lambda>a. Inr (a, count + 1))
               else Inr (a, count))"
  let ?I = "\<lambda>j (a, count). count = new_index isv j \<and> length a = nat N
     \<and> (\<forall>n. 0 \<le> n \<and> n < j \<and> slot isv n = Some 0 \<longrightarrow> slot a n = Some (new_index isv n))"
  have "\<exists>t. for_loop 0 N ?body (a0, 0) = Inr t \<and> ?I N t"
  proof (rule for_loop_rule[where I = ?I])
    show "?I 0 (a0, 0)" using assms by auto
    show "0 \<le> N" by fact
  next
    fix j t assume j: "0 \<le> j" "j < N" and t: "?I j t"
    obtain a count where tt: "t = (a, count)" by (cases t)
    from assms(4) j obtain v where v: "slot isv j = Some v" by blast
    have lt: "nat j < nat N" using j by simp
    have r: "rd isv j = Inr v" using j lt v assms(2) by (simp add: rd_ok slot_def)
    show "\<exists>t'. ?body j t = Inr t' \<and> ?I (j + 1) t'"
    proof (cases "v = 0")
      case True
      have w: "wr a j count = Inr (a[nat j := Some count])"
        using j lt t tt by (simp add: wr_ok)
      have "?I (j + 1) (a[nat j := Some count], count + 1)"
        using j lt t tt v True by (auto simp: new_index_step slot_update)
      then show ?thesis unfolding tt using r w True by simp
    next
      case False
      have "?I (j + 1) (a, count)"
      proof -
        have "slot a n = Some (new_index isv n)"
          if "0 \<le> n" "n < j + 1" "slot isv n = Some 0" for n
        proof -
          have "n \<noteq> j" using that v False by auto
          then show ?thesis using that t tt by auto
        qed
        then show ?thesis using j t tt v False by (simp add: new_index_step)
      qed
      then show ?thesis unfolding tt using r False by simp
    qed
  qed
  then show ?thesis unfolding find_new_atom_index_def by auto
qed

lemma same_frame_refl [simp]: "same_frame mdl mdl"
  by (simp add: same_frame_def same_frame5_def)

lemma same_frame_fields:
  assumes "same_frame mdl mdl'"
  shows "max_neighbor mdl' = max_neighbor mdl" and "neighbor_number mdl' = neighbor_number mdl"
    and "number_of_atoms mdl' = number_of_atoms mdl" and "number_of_pairs mdl' = number_of_pairs mdl"
  using assms by (simp_all add: same_frame_def same_frame5_def)

lemma same_frame_trans: "same_frame a b \<Longrightarrow> same_frame b c \<Longrightarrow> same_frame a c"
  by (simp add: same_frame_def same_frame5_def)

lemma same_frame_lengths:
  assumes "same_frame mdl mdl'"
  shows "length (neighbor_list mdl') = length (neighbor_list mdl)"
    and "length (hopping_real mdl') = length (hopping_real mdl)"
    and "length (hopping_imag mdl') = length (hopping_imag mdl)"
    and "length (xx mdl') = length (xx mdl)"
  using assms by (simp_all add: same_frame_def same_frame5_def)

lemma same_frame_update:
  assumes "length a = length (neighbor_list mc)" "length b = length (hopping_real mc)"
    "length c = length (hopping_imag mc)" "length d = length (xx mc)"
  shows "same_frame mc (mc\<lparr>neighbor_list := a, hopping_real := b, hopping_imag := c, xx := d\<rparr>)"
  using assms by (simp add: same_frame_def same_frame5_def)

lemma same_frame5_refl [simp]: "same_frame5 mdl mdl"
  by (simp add: same_frame5_def)

lemma same_frame5_fields:
  assumes "same_frame5 mdl mdl'"
  shows "max_neighbor mdl' = max_neighbor mdl"
    and "number_of_atoms mdl' = number_of_atoms mdl" and "number_of_pairs mdl' = number_of_pairs mdl"
  using assms by (simp_all add: same_frame5_def)

lemma same_frame5_lengths:
  assumes "same_frame5 mdl mdl'"
  shows "length (neighbor_number mdl') = length (neighbor_number mdl)"
    and "length (neighbor_list mdl') = length (neighbor_list mdl)"
    and "length (hopping_real mdl') = length (hopping_real mdl)"
    and "length (hopping_imag mdl') = length (hopping_imag mdl)"
    and "length (xx mdl') = length (xx mdl)"
  using assms by (simp_all add: same_frame5_def)

lemma same_frame5_step:
  assumes "same_frame5 a b" and "same_frame b c"
  shows "same_frame5 a (c\<lparr>neighbor_number := (neighbor_number c)[i := v]\<rparr>)"
  using assms by (simp add: same_frame_def same_frame5_def)

lemma same_frame5_keep:
  assumes "same_frame5 a b" and "same_frame b c"
  shows "same_frame5 a c"
  using assms by (simp add: same_frame_def same_frame5_def)

lemma pair_index_bound:
  fixes a c mn A :: int
  assumes "0 \<le> a" "a < A" "0 \<le> c" "c < mn"
  shows "0 \<le> a * mn + c" and "a * mn + c < A * mn"
proof -
  have mn: "0 < mn" using assms by simp
  show "0 \<le> a * mn + c" using assms mn by simp
  have "a + 1 \<le> A" using assms by simp
  then have "(a + 1) * mn \<le> A * mn" using mn by (simp add: mult_right_mono)
  then show "a * mn + c < A * mn" using assms by (simp add: algebra_simps)
qed

lemma pair_index_lower:
  fixes a a' c mn :: int
  assumes "a' < a" "0 \<le> c" "c < mn"
  shows "a' * mn + c < a * mn"
proof -
  have mn: "0 < mn" using assms by simp
  have "a' + 1 \<le> a" using assms by simp
  then have "(a' + 1) * mn \<le> a * mn" using mn by (simp add: mult_right_mono)
  then show ?thesis using assms by (simp add: algebra_simps)
qed

lemma nat_pair_index_bound:
  fixes a c mn A :: int
  assumes "0 \<le> a" "a < A" "0 \<le> c" "c < mn"
  shows "nat (a * mn + c) < nat (A * mn)"
  using pair_index_bound[OF assms] by simp

lemma cells_update:
  assumes "0 \<le> i" and "0 \<le> j" and "nat i < length (neighbor_list mc)"
    and "nat i < length (hopping_real mc)" and "nat i < length (hopping_imag mc)"
    and "nat i < length (xx mc)"
  shows "cells (mc\<lparr>neighbor_list := (neighbor_list mc)[nat i := v1],
                   hopping_real := (hopping_real mc)[nat i := v2],
                   hopping_imag := (hopping_imag mc)[nat i := v3],
                   xx := (xx mc)[nat i := v4]\<rparr>) j
         = (if j = i then (v1, v2, v3, v4) else cells mc j)"
  using assms by (simp add: cells_def slot_update)

lemma row_Suc: "row mdl n (Suc c) = row mdl n c @ [cells mdl (n * max_neighbor mdl + int c)]"
  by (simp add: row_def)

lemma row_cong:
  assumes "max_neighbor mdl' = max_neighbor mdl"
    and "\<And>i. i < c \<Longrightarrow> cells mdl' (n * max_neighbor mdl + int i) = cells mdl (n * max_neighbor mdl + int i)"
  shows "row mdl' n c = row mdl n c"
  using assms by (simp add: row_def)

lemma length_row [simp]: "length (row mdl n c) = c"
  by (simp add: row_def)

lemma wf_model_slot:
  assumes "wf_model mdl" and "0 \<le> n" and "n < number_of_atoms mdl"
  obtains c where "slot (neighbor_number mdl) n = Some c" and "0 \<le> c" and "c \<le> max_neighbor mdl"
    and "\<And>m. 0 \<le> m \<Longrightarrow> m < c \<Longrightarrow>
           \<exists>t. slot (neighbor_list mdl) (n * max_neighbor mdl + m) = Some t \<and> 0 \<le> t
             \<and> t < number_of_atoms mdl"
proof -
  from assms have "case slot (neighbor_number mdl) n of
             None \<Rightarrow> False
           | Some c \<Rightarrow> 0 \<le> c \<and> c \<le> max_neighbor mdl
               \<and> (\<forall>m \<in> {0..<c}.
                     case slot (neighbor_list mdl) (n * max_neighbor mdl + m) of
                       None \<Rightarrow> False
                     | Some t \<Rightarrow> 0 \<le> t \<and> t < number_of_atoms mdl)"
    by (simp add: wf_model_def)
  then obtain c where c: "slot (neighbor_number mdl) n = Some c" "0 \<le> c" "c \<le> max_neighbor mdl"
    and a: "\<forall>m \<in> {0..<c}. case slot (neighbor_list mdl) (n * max_neighbor mdl + m) of
                       None \<Rightarrow> False
                     | Some t \<Rightarrow> 0 \<le> t \<and> t < number_of_atoms mdl"
    by (cases "slot (neighbor_number mdl) n") auto
  have "\<exists>t. slot (neighbor_list mdl) (n * max_neighbor mdl + m) = Some t \<and> 0 \<le> t
             \<and> t < number_of_atoms mdl" if m: "0 \<le> m" "m < c" for m
  proof -
    from m have "m \<in> {0..<c}" by simp
    with a have "case slot (neighbor_list mdl) (n * max_neighbor mdl + m) of
                       None \<Rightarrow> False
                     | Some t \<Rightarrow> 0 \<le> t \<and> t < number_of_atoms mdl" by blast
    then show ?thesis by (cases "slot (neighbor_list mdl) (n * max_neighbor mdl + m)") auto
  qed
  with c show ?thesis by (intro that[of c]) auto
qed

lemma keep_neighbor_step:
  assumes mn: "max_neighbor mc = mn"
    and io: "io = n * mn + m" "0 \<le> io" "nat io < length nlP" "nat io < length hrP"
      "nat io < length hiP" "nat io < length xxP"
    and t: "nlP ! nat io = Some t" "0 \<le> t" "nat t < length isv" "isv ! nat t = Some v"
    and nai: "v = 0 \<Longrightarrow> nat t < length nai \<and> nai ! nat t = Some t'"
    and inew: "inew = a * mn + cnt" "v = 0 \<Longrightarrow> 0 \<le> inew \<and> nat inew < length (neighbor_list mc)
      \<and> nat inew < length (hopping_real mc) \<and> nat inew < length (hopping_imag mc)
      \<and> nat inew < length (xx mc)"
  shows "keep_neighbor isv nai nlP hrP hiP xxP n a m (mc, cnt)
         = (if v = 0 then
              Inr (mc\<lparr>neighbor_list := (neighbor_list mc)[nat inew := Some t'],
                      hopping_real := (hopping_real mc)[nat inew := hrP ! nat io],
                      hopping_imag := (hopping_imag mc)[nat inew := hiP ! nat io],
                      xx := (xx mc)[nat inew := xxP ! nat io]\<rparr>, cnt + 1)
            else Inr (mc, cnt))"
proof (cases "v = 0")
  case True
  have r1: "rd nlP (n * mn + m) = Inr t" using io t by (simp add: rd_ok)
  have r2: "rd isv t = Inr 0" using t True by (simp add: rd_ok)
  have r3: "rd nai t = Inr t'" using t nai True by (simp add: rd_ok)
  have b: "0 \<le> a * mn + cnt" "nat (a * mn + cnt) < length (neighbor_list mc)"
    "nat (a * mn + cnt) < length (hopping_real mc)" "nat (a * mn + cnt) < length (hopping_imag mc)"
    "nat (a * mn + cnt) < length (xx mc)" "0 \<le> n * mn + m" "nat (n * mn + m) < length hrP"
    "nat (n * mn + m) < length hiP" "nat (n * mn + m) < length xxP"
    using inew True io by auto
  show ?thesis
    unfolding keep_neighbor_def
    using True b by (simp add: mn Let_def r1 r2 r3 wr_ok cell_ok wr_cell_ok io(1) inew(1))
next
  case False
  have r1: "rd nlP (n * mn + m) = Inr t" using io t by (simp add: rd_ok)
  have r2: "rd isv t = Inr v" using t by (simp add: rd_ok)
  show ?thesis
    unfolding keep_neighbor_def using False by (simp add: mn Let_def r1 r2)
qed

lemma vacancy_mapsD:
  assumes "vacancy_maps mdl isv nai"
  shows "length isv = nat (number_of_atoms mdl)" and "length nai = nat (number_of_atoms mdl)"
    and "0 \<le> t \<Longrightarrow> t < number_of_atoms mdl \<Longrightarrow> \<exists>v. slot isv t = Some v"
    and "0 \<le> t \<Longrightarrow> t < number_of_atoms mdl \<Longrightarrow> slot isv t = Some 0 \<Longrightarrow>
         slot nai t = Some (new_index isv t)"
  using assms by (simp_all add: vacancy_maps_def)

lemma keep_neighbors_loop:
  assumes wf: "wf_model mdl" and vm: "vacancy_maps mdl isv nai"
    and n: "0 \<le> n" "n < number_of_atoms mdl"
    and a: "0 \<le> a" "a < A"
    and ms: "max_neighbor ms = max_neighbor mdl"
      "length (neighbor_list ms) = nat (A * max_neighbor mdl)"
      "length (hopping_real ms) = nat (A * max_neighbor mdl)"
      "length (hopping_imag ms) = nat (A * max_neighbor mdl)"
      "length (xx ms) = nat (A * max_neighbor mdl)"
  shows "\<exists>mt. for_loop 0 (the (slot (neighbor_number mdl) n))
            (keep_neighbor isv nai (neighbor_list mdl) (hopping_real mdl) (hopping_imag mdl)
               (xx mdl) n a) (ms, 0)
          = Inr (mt, int (length (filter (kept isv) (hops mdl n))))
     \<and> same_frame ms mt
     \<and> (\<forall>j. 0 \<le> j \<and> \<not> (a * max_neighbor mdl \<le> j
              \<and> j < a * max_neighbor mdl + int (length (filter (kept isv) (hops mdl n))))
           \<longrightarrow> cells mt j = cells ms j)
     \<and> row mt a (length (filter (kept isv) (hops mdl n)))
         = map (renumber isv) (filter (kept isv) (hops mdl n))"
proof -
  let ?N = "number_of_atoms mdl" and ?mn = "max_neighbor mdl"
  from wf_model_slot[OF wf n] obtain c where c: "slot (neighbor_number mdl) n = Some c"
    "0 \<le> c" "c \<le> ?mn"
    and tg: "\<And>m. 0 \<le> m \<Longrightarrow> m < c \<Longrightarrow>
           \<exists>t. slot (neighbor_list mdl) (n * ?mn + m) = Some t \<and> 0 \<le> t \<and> t < ?N"
    by blast
  have len: "length (neighbor_list mdl) = nat (?N * ?mn)" "length (hopping_real mdl) = nat (?N * ?mn)"
    "length (hopping_imag mdl) = nat (?N * ?mn)" "length (xx mdl) = nat (?N * ?mn)"
    using wf by (simp_all add: wf_model_def)
  let ?F = "\<lambda>m. filter (kept isv) (row mdl n (nat m))"
  let ?body = "keep_neighbor isv nai (neighbor_list mdl) (hopping_real mdl) (hopping_imag mdl)
               (xx mdl) n a"
  let ?I = "\<lambda>m (mc, cnt). same_frame ms mc \<and> cnt = int (length (?F m))
     \<and> (\<forall>j. 0 \<le> j \<and> \<not> (a * ?mn \<le> j \<and> j < a * ?mn + cnt) \<longrightarrow> cells mc j = cells ms j)
     \<and> row mc a (nat cnt) = map (renumber isv) (?F m)"
  have "\<exists>t. for_loop 0 c ?body (ms, 0) = Inr t \<and> ?I c t"
  proof (rule for_loop_rule[where I = ?I])
    show "?I 0 (ms, 0)" by (simp add: row_def)
    show "0 \<le> c" by fact
  next
    fix m st assume m: "0 \<le> m" "m < c" and inv: "?I m st"
    obtain mc cnt where st: "st = (mc, cnt)" by (cases st)
    have fr: "same_frame ms mc" and cnt: "cnt = int (length (?F m))"
      and out: "\<And>j. 0 \<le> j \<Longrightarrow> \<not> (a * ?mn \<le> j \<and> j < a * ?mn + cnt) \<Longrightarrow> cells mc j = cells ms j"
      and rw: "row mc a (nat cnt) = map (renumber isv) (?F m)"
      using inv unfolding st by auto
    have mnc: "max_neighbor mc = ?mn" using same_frame_fields(1)[OF fr] ms(1) by simp
    have lenc: "length (neighbor_list mc) = nat (A * ?mn)" "length (hopping_real mc) = nat (A * ?mn)"
      "length (hopping_imag mc) = nat (A * ?mn)" "length (xx mc) = nat (A * ?mn)"
      using same_frame_lengths[OF fr] ms by simp_all
    define io where "io = n * ?mn + m"
    define inew where "inew = a * ?mn + cnt"
    have mmn: "m < ?mn" using m c by simp
    have io0: "0 \<le> io" and ioN: "nat io < nat (?N * ?mn)"
      unfolding io_def using pair_index_bound[OF n m(1) mmn] by simp_all
    from tg[OF m] obtain t where t: "slot (neighbor_list mdl) io = Some t" "0 \<le> t" "t < ?N"
      unfolding io_def by blast
    from vacancy_mapsD(3)[OF vm t(2,3)] obtain v where v: "slot isv t = Some v" by blast
    have leni: "length isv = nat ?N" "length nai = nat ?N" using vacancy_mapsD(1,2)[OF vm] by simp_all
    have nai: "v = 0 \<Longrightarrow> nat t < length nai \<and> nai ! nat t = Some (new_index isv t)"
      using vacancy_mapsD(4)[OF vm t(2,3)] t v leni by (simp add: slot_def)
    have cntm: "0 \<le> cnt" "cnt \<le> m"
    proof -
      show "0 \<le> cnt" using cnt by simp
      have "length (?F m) \<le> length (row mdl n (nat m))" by (rule length_filter_le)
      then show "cnt \<le> m" using cnt m by simp
    qed
    have cmn: "cnt < ?mn" using cntm mmn by simp
    have in0: "0 \<le> inew" and inA: "nat inew < nat (A * ?mn)"
      unfolding inew_def using pair_index_bound[OF a cntm(1) cmn] by simp_all
    have step: "?body m (mc, cnt)
         = (if v = 0 then
              Inr (mc\<lparr>neighbor_list := (neighbor_list mc)[nat inew := Some (new_index isv t)],
                      hopping_real := (hopping_real mc)[nat inew := hopping_real mdl ! nat io],
                      hopping_imag := (hopping_imag mc)[nat inew := hopping_imag mdl ! nat io],
                      xx := (xx mc)[nat inew := xx mdl ! nat io]\<rparr>, cnt + 1)
            else Inr (mc, cnt))"
      using io0 ioN t v leni nai in0 inA
      by (intro keep_neighbor_step[OF mnc io_def]) (simp_all add: len lenc slot_def inew_def)
    have cl: "cells mdl io = (Some t, hopping_real mdl ! nat io, hopping_imag mdl ! nat io,
                xx mdl ! nat io)"
      using t by (simp add: cells_def slot_def)
    have kp: "kept isv (cells mdl io) \<longleftrightarrow> v = 0" using v by (simp add: cl kept_def)
    have F: "?F (m + 1) = ?F m @ (if v = 0 then [cells mdl io] else [])"
      using m kp by (simp add: nat_add_distrib row_Suc io_def)
    show "\<exists>t'. ?body m st = Inr t' \<and> ?I (m + 1) t'"
    proof (cases "v = 0")
      case False
      have i': "?I (m + 1) (mc, cnt)"
        using fr cnt out rw False by (simp add: F)
      have b: "?body m st = Inr (mc, cnt)" unfolding st using step False by simp
      show ?thesis by (rule exI[of _ "(mc, cnt)"]) (rule conjI[OF b i'])
    next
      case True
      let ?mc = "mc\<lparr>neighbor_list := (neighbor_list mc)[nat inew := Some (new_index isv t)],
                      hopping_real := (hopping_real mc)[nat inew := hopping_real mdl ! nat io],
                      hopping_imag := (hopping_imag mc)[nat inew := hopping_imag mdl ! nat io],
                      xx := (xx mc)[nat inew := xx mdl ! nat io]\<rparr>"
      have fr': "same_frame ms ?mc"
        by (rule same_frame_trans[OF fr], rule same_frame_update) simp_all
      have cs: "cells ?mc j = (if j = inew then renumber isv (cells mdl io) else cells mc j)"
        if "0 \<le> j" for j
        using that in0 inA by (subst cells_update) (simp_all add: lenc cl renumber_def)
      have out': "cells ?mc j = cells ms j"
        if "0 \<le> j" "\<not> (a * ?mn \<le> j \<and> j < a * ?mn + (cnt + 1))" for j
      proof -
        have "j \<noteq> inew" using that cntm by (auto simp: inew_def)
        moreover have "\<not> (a * ?mn \<le> j \<and> j < a * ?mn + cnt)" using that by auto
        ultimately show ?thesis using that cs out by simp
      qed
      have "row ?mc a (nat cnt) = row mc a (nat cnt)"
      proof (rule row_cong)
        show "max_neighbor ?mc = max_neighbor mc" by simp
        fix i assume "i < nat cnt"
        then have "a * max_neighbor mc + int i \<noteq> inew" "0 \<le> a * max_neighbor mc + int i"
          using a ms(1) mnc cmn by (auto simp: inew_def)
        then show "cells ?mc (a * max_neighbor mc + int i) = cells mc (a * max_neighbor mc + int i)"
          using cs by simp
      qed
      moreover have "cells ?mc (a * ?mn + int (nat cnt)) = renumber isv (cells mdl io)"
        using cs[of inew] in0 cntm by (simp add: inew_def)
      moreover have "row ?mc a (nat (cnt + 1))
          = row ?mc a (nat cnt) @ [cells ?mc (a * ?mn + int (nat cnt))]"
        using cntm mnc by (simp add: nat_add_distrib row_Suc)
      ultimately have rw': "row ?mc a (nat (cnt + 1)) = map (renumber isv) (?F (m + 1))"
        using rw True by (simp add: F)
      have i': "?I (m + 1) (?mc, cnt + 1)"
        using fr' out' rw' cnt True by (simp add: F)
      have b: "?body m st = Inr (?mc, cnt + 1)" unfolding st using step True by simp
      show ?thesis by (rule exI[of _ "(?mc, cnt + 1)"]) (rule conjI[OF b i'])
    qed
  qed
  then obtain mt where r: "for_loop 0 c ?body (ms, 0) = Inr (mt, int (length (?F c)))"
    and fin: "?I c (mt, int (length (?F c)))" by auto
  have h: "hops mdl n = row mdl n (nat c)" using c by (simp add: hops_def)
  show ?thesis
    using r fin c(1) unfolding h by (intro exI[of _ mt]) simp
qed

lemma length_hops:
  assumes "wf_model mdl" "0 \<le> n" "n < number_of_atoms mdl"
  shows "int (length (hops mdl n)) \<le> max_neighbor mdl"
    and "slot (neighbor_number mdl) n = Some (int (length (hops mdl n)))"
proof -
  from wf_model_slot[OF assms] obtain c where c: "slot (neighbor_number mdl) n = Some c"
    "0 \<le> c" "c \<le> max_neighbor mdl" by blast
  then show "int (length (hops mdl n)) \<le> max_neighbor mdl"
    and "slot (neighbor_number mdl) n = Some (int (length (hops mdl n)))"
    by (simp_all add: hops_def)
qed

lemma cells_neighbor_number [simp]: "cells (m\<lparr>neighbor_number := v\<rparr>) j = cells m j"
  by (simp add: cells_def)

lemma row_neighbor_number [simp]: "row (m\<lparr>neighbor_number := v\<rparr>) a c = row m a c"
  by (simp add: row_def)

lemma keep_atoms_loop:
  assumes wf: "wf_model mdl" and vm: "vacancy_maps mdl isv nai"
    and A: "new_index isv (number_of_atoms mdl) = A"
    and m1: "max_neighbor m1 = max_neighbor mdl" "length (neighbor_number m1) = nat A"
      "length (neighbor_list m1) = nat (A * max_neighbor mdl)"
      "length (hopping_real m1) = nat (A * max_neighbor mdl)"
      "length (hopping_imag m1) = nat (A * max_neighbor mdl)"
      "length (xx m1) = nat (A * max_neighbor mdl)"
  shows "\<exists>mt. for_loop 0 (number_of_atoms mdl)
            (keep_atom isv nai (neighbor_number mdl) (neighbor_list mdl) (hopping_real mdl)
               (hopping_imag mdl) (xx mdl)) (m1, 0) = Inr (mt, A)
     \<and> same_frame5 m1 mt
     \<and> (\<forall>n. 0 \<le> n \<and> n < number_of_atoms mdl \<and> slot isv n = Some 0 \<longrightarrow> rebuilt isv mdl mt n)
     \<and> (\<forall>a. 0 \<le> a \<and> a < A \<longrightarrow>
           (\<exists>n. 0 \<le> n \<and> n < number_of_atoms mdl \<and> slot isv n = Some 0 \<and> new_index isv n = a))"
proof -
  let ?N = "number_of_atoms mdl" and ?mn = "max_neighbor mdl"
  let ?body = "keep_atom isv nai (neighbor_number mdl) (neighbor_list mdl) (hopping_real mdl)
               (hopping_imag mdl) (xx mdl)"
  let ?J = "\<lambda>n (mc, ca). ca = new_index isv n \<and> same_frame5 m1 mc
     \<and> (\<forall>n'. 0 \<le> n' \<and> n' < n \<and> slot isv n' = Some 0 \<longrightarrow> rebuilt isv mdl mc n')
     \<and> (\<forall>a. 0 \<le> a \<and> a < ca \<longrightarrow>
           (\<exists>n'. 0 \<le> n' \<and> n' < n \<and> slot isv n' = Some 0 \<and> new_index isv n' = a))"
  have N0: "0 \<le> ?N" and mn0: "0 < ?mn" and lnn: "length (neighbor_number mdl) = nat ?N"
    using wf by (simp_all add: wf_model_def)
  have leni: "length isv = nat ?N" using vacancy_mapsD(1)[OF vm] .
  have "\<exists>t. for_loop 0 ?N ?body (m1, 0) = Inr t \<and> ?J ?N t"
  proof (rule for_loop_rule[where I = ?J])
    show "?J 0 (m1, 0)" by auto
    show "0 \<le> ?N" by fact
  next
    fix n st assume n: "0 \<le> n" "n < ?N" and inv: "?J n st"
    obtain mc ca where st: "st = (mc, ca)" by (cases st)
    have ca: "ca = new_index isv n" and fr: "same_frame5 m1 mc"
      and old: "\<And>n'. 0 \<le> n' \<Longrightarrow> n' < n \<Longrightarrow> slot isv n' = Some 0 \<Longrightarrow> rebuilt isv mdl mc n'"
      and sur: "\<And>a. 0 \<le> a \<Longrightarrow> a < ca \<Longrightarrow>
           \<exists>n'. 0 \<le> n' \<and> n' < n \<and> slot isv n' = Some 0 \<and> new_index isv n' = a"
      using inv unfolding st by auto
    from vacancy_mapsD(3)[OF vm n] obtain v where v: "slot isv n = Some v" by blast
    have r1: "rd isv n = Inr v" using n v leni by (simp add: rd_ok slot_def)
    show "\<exists>t'. ?body n st = Inr t' \<and> ?J (n + 1) t'"
    proof (cases "v = 0")
      case False
      have b: "?body n st = Inr (mc, ca)" unfolding st keep_atom_def using r1 False by simp
      have ne: "n' \<noteq> n" if "slot isv n' = Some 0" for n' using that v False by auto
      have o: "rebuilt isv mdl mc n'" if "0 \<le> n'" "n' < n + 1" "slot isv n' = Some 0" for n'
        using that ne[of n'] old[of n'] by simp
      have s: "\<exists>n'. 0 \<le> n' \<and> n' < n + 1 \<and> slot isv n' = Some 0 \<and> new_index isv n' = a"
        if "0 \<le> a" "a < ca" for a
        using sur[OF that] by force
      have i': "?J (n + 1) (mc, ca)"
        using ca fr n v False o s by (simp add: new_index_step)
      show ?thesis by (rule exI[of _ "(mc, ca)"]) (rule conjI[OF b i'])
    next
      case True
      let ?S = "filter (kept isv) (hops mdl n)"
      have c: "slot (neighbor_number mdl) n = Some (int (length (hops mdl n)))"
        using length_hops(2)[OF wf n] .
      have r2: "rd (neighbor_number mdl) n = Inr (int (length (hops mdl n)))"
        using n c lnn by (simp add: rd_ok slot_def)
      have a0: "0 \<le> ca" using ca by (simp add: new_index_nonneg)
      have aA: "ca < A" using new_index_less[OF n(1) n(2), of isv] v True ca A by simp
      have mc: "max_neighbor mc = ?mn" "length (neighbor_list mc) = nat (A * ?mn)"
        "length (hopping_real mc) = nat (A * ?mn)" "length (hopping_imag mc) = nat (A * ?mn)"
        "length (xx mc) = nat (A * ?mn)" "length (neighbor_number mc) = nat A"
        using same_frame5_fields(1)[OF fr] same_frame5_lengths[OF fr] m1 by simp_all
      from keep_neighbors_loop[OF wf vm n a0 aA mc(1-5)]
      obtain mt where lp: "for_loop 0 (the (slot (neighbor_number mdl) n))
            (keep_neighbor isv nai (neighbor_list mdl) (hopping_real mdl) (hopping_imag mdl)
               (xx mdl) n ca) (mc, 0) = Inr (mt, int (length ?S))"
        and fr2: "same_frame mc mt"
        and out: "\<And>j. 0 \<le> j \<Longrightarrow> \<not> (ca * ?mn \<le> j \<and> j < ca * ?mn + int (length ?S))
              \<Longrightarrow> cells mt j = cells mc j"
        and rw: "row mt ca (length ?S) = map (renumber isv) ?S"
        by blast
      have nnt: "neighbor_number mt = neighbor_number mc" using same_frame_fields(2)[OF fr2] .
      have mnt: "max_neighbor mt = max_neighbor mc" using same_frame_fields(1)[OF fr2] .
      let ?mc = "mt\<lparr>neighbor_number := (neighbor_number mt)[nat ca := Some (int (length ?S))]\<rparr>"
      have w: "wr (neighbor_number mt) ca (int (length ?S))
               = Inr ((neighbor_number mt)[nat ca := Some (int (length ?S))])"
        using a0 aA mc(6) nnt by (simp add: wr_ok)
      have b: "?body n st = Inr (?mc, ca + 1)"
        unfolding st keep_atom_def using r1 r2 True lp w c by simp
      have fr': "same_frame5 m1 ?mc" by (rule same_frame5_step[OF fr fr2])
      have new: "rebuilt isv mdl ?mc n"
        using a0 aA mc(6) nnt rw by (simp add: rebuilt_def ca[symmetric] slot_def)
      have prev: "rebuilt isv mdl ?mc n'" if n': "0 \<le> n'" "n' < n" "slot isv n' = Some 0" for n'
      proof -
        let ?a = "new_index isv n'"
        let ?S' = "filter (kept isv) (hops mdl n')"
        have lt: "?a < ca" unfolding ca using new_index_less[OF n'(1,2,3)] .
        have a'0: "0 \<le> ?a" by (rule new_index_nonneg)
        have o: "rebuilt isv mdl mc n'" using old[OF n'] .
        have "length ?S' \<le> length (hops mdl n')" by (rule length_filter_le)
        moreover have "int (length (hops mdl n')) \<le> ?mn"
          using length_hops(1)[OF wf n'(1)] n' n by simp
        ultimately have le: "int (length ?S') \<le> ?mn" by linarith
        have "row mt ?a (length ?S') = row mc ?a (length ?S')"
        proof (rule row_cong[OF mnt])
          fix i assume i: "i < length ?S'"
          have "?a * ?mn + int i < ca * ?mn"
            using i le by (intro pair_index_lower[OF lt]) simp_all
          moreover have "0 \<le> ?a * ?mn + int i" using a'0 mn0 by simp
          ultimately show "cells mt (?a * max_neighbor mc + int i)
                           = cells mc (?a * max_neighbor mc + int i)"
            unfolding mc(1) by (intro out) simp_all
        qed
        moreover have "slot ((neighbor_number mt)[nat ca := Some (int (length ?S))]) ?a
                       = slot (neighbor_number mc) ?a"
          using a0 a'0 aA lt mc(6) nnt by (simp add: slot_update)
        ultimately show ?thesis using o by (simp add: rebuilt_def)
      qed
      have o: "rebuilt isv mdl ?mc n'" if "0 \<le> n'" "n' < n + 1" "slot isv n' = Some 0" for n'
      proof (cases "n' = n")
        case True then show ?thesis using new by simp
      next
        case False then show ?thesis using that prev[of n'] by simp
      qed
      have s: "\<exists>n'. 0 \<le> n' \<and> n' < n + 1 \<and> slot isv n' = Some 0 \<and> new_index isv n' = a"
        if "0 \<le> a" "a < ca + 1" for a
      proof (cases "a = ca")
        case True
        then show ?thesis using n v \<open>v = 0\<close> ca by (intro exI[of _ n]) simp
      next
        case False
        then have "a < ca" using that by simp
        from sur[OF that(1) this] show ?thesis by force
      qed
      have i': "?J (n + 1) (?mc, ca + 1)"
        using ca fr' n v True o s by (simp add: new_index_step)
      show ?thesis by (rule exI[of _ "(?mc, ca + 1)"]) (rule conjI[OF b i'])
    qed
  qed
  then obtain mt where "for_loop 0 ?N ?body (m1, 0) = Inr (mt, A)" "?J ?N (mt, A)"
    using A by auto
  then show ?thesis by (intro exI[of _ mt]) simp
qed

lemma slot_vacancy_flags:
  "0 \<le> n \<Longrightarrow> n < N \<Longrightarrow>
   slot (vacancy_flags g N k) n = Some (if nat n \<in> set (vacancy_sites g N k) then 1 else 0)"
  by (simp add: vacancy_flags_def slot_def)

lemma length_vacancy_flags [simp]: "length (vacancy_flags g N k) = nat N"
  by (simp add: vacancy_flags_def)

lemma new_index_flags_total:
  assumes "0 \<le> k" and "k \<le> N"
  shows "new_index (vacancy_flags g N k) N = N - k"
proof -
  let ?V = "set (vacancy_sites g N k)"
  have "filter (\<lambda>j. vacancy_flags g N k ! j = Some 0) [0..<nat N]
        = filter (\<lambda>j. j \<notin> ?V) [0..<nat N]"
    by (rule filter_cong) (auto simp: vacancy_flags_def)
  moreover have "length (filter (\<lambda>j. j \<in> ?V) [0..<nat N]) + length (filter (\<lambda>j. j \<notin> ?V) [0..<nat N])
        = nat N"
    using sum_length_filter_compl[of "\<lambda>j. j \<in> ?V" "[0..<nat N]"] by simp
  moreover have "length (filter (\<lambda>j. j \<in> ?V) [0..<nat N]) = card ({j. j \<in> ?V} \<inter> set [0..<nat N])"
    by (rule distinct_length_filter) simp
  moreover have "{j. j \<in> ?V} \<inter> set [0..<nat N] = ?V"
    using vacancy_sites_props(3)[OF assms, of g] by auto
  moreover have "card ?V = nat k"
    using vacancy_sites_props(1,2)[OF assms, of g] by (simp add: distinct_card)
  ultimately have "length (filter (\<lambda>j. vacancy_flags g N k ! j = Some 0) [0..<nat N]) + nat k = nat N"
    by simp
  then show ?thesis using assms unfolding new_index_def by linarith
qed

lemma add_vacancies_ok:
  fixes g :: generator
  assumes wf: "wf_model mdl" and k: "0 \<le> number_of_vacancies p"
    "number_of_vacancies p \<le> number_of_atoms mdl"
  defines "isv \<equiv> vacancy_flags g (number_of_atoms mdl) (number_of_vacancies p)"
  shows "\<exists>mt. add_vacancies p mdl g = Inr (mt, skip_draws (nat (number_of_atoms mdl)) g)
     \<and> number_of_atoms mt = number_of_atoms mdl - number_of_vacancies p
     \<and> max_neighbor mt = max_neighbor mdl
     \<and> number_of_pairs mt = number_of_atoms mt * max_neighbor mdl
     \<and> length (neighbor_number mt) = nat (number_of_atoms mt)
     \<and> length (neighbor_list mt) = nat (number_of_pairs mt)
     \<and> (\<forall>n. 0 \<le> n \<and> n < number_of_atoms mdl \<and> slot isv n = Some 0 \<longrightarrow> rebuilt isv mdl mt n)
     \<and> (\<forall>a. 0 \<le> a \<and> a < number_of_atoms mt \<longrightarrow>
           (\<exists>n. 0 \<le> n \<and> n < number_of_atoms mdl \<and> slot isv n = Some 0 \<and> new_index isv n = a))"
proof -
  let ?N = "number_of_atoms mdl" and ?mn = "max_neighbor mdl" and ?k = "number_of_vacancies p"
  let ?A = "?N - ?k"
  have N0: "0 \<le> ?N" and mn0: "0 < ?mn" and P: "number_of_pairs mdl = ?N * ?mn"
    and len: "length (neighbor_number mdl) = nat ?N" "length (neighbor_list mdl) = nat (?N * ?mn)"
      "length (hopping_real mdl) = nat (?N * ?mn)" "length (hopping_imag mdl) = nat (?N * ?mn)"
      "length (xx mdl) = nat (?N * ?mn)"
    using wf by (simp_all add: wf_model_def)
  have P0: "0 \<le> ?N * ?mn" using N0 mn0 by simp
  have A0: "0 \<le> ?A" using k by simp
  have AP0: "0 \<le> ?A * ?mn" using A0 mn0 by simp
  have sv: "specify_vacancies ?k (replicate (nat ?N) None) ?N g = Inr (isv, skip_draws (nat ?N) g)"
    using specify_vacancies_ok[OF k, of "replicate (nat ?N) None" g]
    by (simp add: isv_def vacancy_flags_def)
  have all: "\<forall>n. 0 \<le> n \<and> n < ?N \<longrightarrow> (\<exists>v. slot isv n = Some v)"
    by (simp add: isv_def slot_vacancy_flags)
  from find_new_atom_index_ok[OF N0 _ _ all, of "replicate (nat ?N) None"]
  obtain nai where nai: "find_new_atom_index isv (replicate (nat ?N) None) ?N = Inr nai"
    "length nai = nat ?N"
    "\<forall>n. 0 \<le> n \<and> n < ?N \<and> slot isv n = Some 0 \<longrightarrow> slot nai n = Some (new_index isv n)"
    by (auto simp: isv_def)
  have vm: "vacancy_maps mdl isv nai"
    using nai all by (simp add: vacancy_maps_def isv_def)
  have tot: "new_index isv ?N = ?A" unfolding isv_def by (rule new_index_flags_total[OF k])
  define m1 where "m1 = mdl\<lparr>number_of_atoms := ?A, number_of_pairs := ?A * ?mn,
      neighbor_number := replicate (nat ?A) None, neighbor_list := replicate (nat (?A * ?mn)) None,
      hopping_real := replicate (nat (?A * ?mn)) None,
      hopping_imag := replicate (nat (?A * ?mn)) None, xx := replicate (nat (?A * ?mn)) None\<rparr>"
  have m1: "max_neighbor m1 = ?mn" "length (neighbor_number m1) = nat ?A"
      "length (neighbor_list m1) = nat (?A * ?mn)"
      "length (hopping_real m1) = nat (?A * ?mn)"
      "length (hopping_imag m1) = nat (?A * ?mn)"
      "length (xx m1) = nat (?A * ?mn)"
    by (simp_all add: m1_def)
  from keep_atoms_loop[OF wf vm tot m1]
  obtain mt where lp: "for_loop 0 ?N
            (keep_atom isv nai (neighbor_number mdl) (neighbor_list mdl) (hopping_real mdl)
               (hopping_imag mdl) (xx mdl)) (m1, 0) = Inr (mt, ?A)"
    and fr: "same_frame5 m1 mt"
    and rb: "\<forall>n. 0 \<le> n \<and> n < ?N \<and> slot isv n = Some 0 \<longrightarrow> rebuilt isv mdl mt n"
    and sj: "\<forall>a. 0 \<le> a \<and> a < ?A \<longrightarrow>
           (\<exists>n. 0 \<le> n \<and> n < ?N \<and> slot isv n = Some 0 \<and> new_index isv n = a)"
    by blast
  have c1: "for_loop 0 ?N (\<lambda>n a. bnd (cell (neighbor_number mdl) n) (\<lambda>c. wr_cell a n c))
              (replicate (nat ?N) None) = Inr (neighbor_number mdl)"
    by (rule copy_loop[OF N0]) (simp_all add: len)
  have c4: "for_loop 0 (?N * ?mn)
            (\<lambda>m (nl, hr, hi, xs).
               bnd (cell (neighbor_list mdl) m) (\<lambda>c. bnd (wr_cell nl m c) (\<lambda>nl.
               bnd (cell (hopping_real mdl) m) (\<lambda>c. bnd (wr_cell hr m c) (\<lambda>hr.
               bnd (cell (hopping_imag mdl) m) (\<lambda>c. bnd (wr_cell hi m c) (\<lambda>hi.
               bnd (cell (xx mdl) m) (\<lambda>c. bnd (wr_cell xs m c) (\<lambda>xs.
               Inr (nl, hr, hi, xs))))))))))
            (replicate (nat (?N * ?mn)) None, replicate (nat (?N * ?mn)) None,
             replicate (nat (?N * ?mn)) None, replicate (nat (?N * ?mn)) None)
          = Inr (neighbor_list mdl, hopping_real mdl, hopping_imag mdl, xx mdl)"
    by (rule copy4_loop[OF P0]) (simp_all add: len)
  have res: "add_vacancies p mdl g = Inr (mt, skip_draws (nat ?N) g)"
    unfolding add_vacancies_def
    using N0 P0 A0 AP0
    by (simp add: P new_array_ok c1 c4 Let_def sv nai(1) lp[unfolded m1_def])
  have f: "number_of_atoms mt = ?A" "max_neighbor mt = ?mn" "number_of_pairs mt = ?A * ?mn"
    using same_frame5_fields[OF fr] by (simp_all add: m1_def)
  have l: "length (neighbor_number mt) = nat ?A" "length (neighbor_list mt) = nat (?A * ?mn)"
    using same_frame5_lengths[OF fr] m1 by simp_all
  show ?thesis
    using res f l rb sj by (intro exI[of _ mt]) simp
qed

lemma hops_targets:
  assumes wf: "wf_model mdl" and n: "0 \<le> n" "n < number_of_atoms mdl"
    and h: "h \<in> set (hops mdl n)"
  shows "\<exists>t. fst h = Some t \<and> 0 \<le> t \<and> t < number_of_atoms mdl"
proof -
  from wf_model_slot[OF wf n] obtain c where c: "slot (neighbor_number mdl) n = Some c"
    and tg: "\<And>m. 0 \<le> m \<Longrightarrow> m < c \<Longrightarrow>
           \<exists>t. slot (neighbor_list mdl) (n * max_neighbor mdl + m) = Some t \<and> 0 \<le> t
             \<and> t < number_of_atoms mdl"
    by blast
  from h c obtain i where i: "i < nat c" "h = cells mdl (n * max_neighbor mdl + int i)"
    by (auto simp: hops_def row_def)
  from tg[of "int i"] i(1) show ?thesis by (simp add: i(2) cells_def)
qed

lemma kept_or_marked:
  assumes wf: "wf_model mdl" and n: "0 \<le> n" "n < number_of_atoms mdl"
    and k: "0 \<le> k" "k \<le> number_of_atoms mdl"
  shows "length (filter (kept (vacancy_flags g (number_of_atoms mdl) k)) (hops mdl n))
       + length (filter (marked (vacancy_flags g (number_of_atoms mdl) k)) (hops mdl n))
       = length (hops mdl n)"
proof -
  let ?isv = "vacancy_flags g (number_of_atoms mdl) k"
  have "filter (marked ?isv) (hops mdl n) = filter (\<lambda>h. \<not> kept ?isv h) (hops mdl n)"
  proof (rule filter_cong[OF refl])
    fix h assume "h \<in> set (hops mdl n)"
    from hops_targets[OF wf n this] obtain t where "fst h = Some t" "0 \<le> t" "t < number_of_atoms mdl"
      by blast
    then show "marked ?isv h = (\<not> kept ?isv h)"
      by (simp add: marked_def kept_def slot_vacancy_flags)
  qed
  then show ?thesis using sum_length_filter_compl[of "kept ?isv" "hops mdl n"] by simp
qed

section \<open>An example of vacancy removal\<close>

lemma wf_example_model: "wf_model example_model"
  by code_simp

lemma one_vacancy_simps [simp]: "number_of_vacancies one_vacancy = 1"
  by (simp add: one_vacancy_def)

lemma example_model_simps [simp]: "number_of_atoms example_model = 4"
  by (simp add: example_model_def)

lemma example_vacancy_sites: "vacancy_sites example_generator 4 1 = [1]"
  by (simp add: vacancy_sites_def example_shuffle)

lemma example_is_vacancy:
  "specify_vacancies 1 (replicate (nat 4) None) 4 example_generator
   = Inr ([Some 0, Some 1, Some 0, Some 0], skip_draws 4 example_generator)"
  by (simp add: specify_vacancies_ok example_vacancy_sites upt_conv_Cons)

lemma example_hops: "hops example_model 0 = [(Some 2, Some 1, Some 0, Some 1)]"
  by (simp add: hops_def row_def cells_def slot_def example_model_def)

lemma example_count: "slot (neighbor_number example_model) 0 = Some 1"
  by (simp add: slot_def example_model_def)

lemma example_new_index:
  "new_index [Some 0, Some 1, Some 0, Some 0] 0 = 0"
  "new_index [Some 0, Some 1, Some 0, Some 0] 2 = 1"
  by (simp_all add: new_index_def upt_conv_Cons)

lemma example_flag: "slot [Some 0, Some 1, Some 0, Some (0::int)] 0 = Some 0"
  "slot [Some 0, Some 1, Some 0, Some (0::int)] 2 = Some 0"
  by (simp_all add: slot_def)

lemma add_vacancies_example:
  "case add_vacancies one_vacancy example_model example_generator of Inl e \<Rightarrow> False 
   | Inr (m, g) \<Rightarrow> neighbor_number m = [Some 1, Some 1, Some 0] 
       \<and> neighbor_list m = [Some 1, None, Some 0, None, None, None]"
  by code_simp

section \<open>Vacancy removal on a well-formed table\<close>

text \<open>
  On a well-formed pristine table of \<open>N\<close> atoms (\<open>wf_model\<close>: every stored target is an atom)
  and for \<open>0 < k < N\<close> vacancies, \<^verbatim>\<open>add_vacancies\<close> returns a model with
  \<^verbatim>\<open>number_of_atoms = N - k\<close>, and every valid slot of the rebuilt \<^verbatim>\<open>neighbor_list\<close> (slot \<open>m\<close>
  of atom \<open>a\<close> with \<open>m\<close> below the new \<^verbatim>\<open>neighbor_number[a]\<close>) holds a target index in
  \<open>[0, N - k)\<close>.
\<close>

theorem add_vacancies_atoms_and_targets:
  assumes "wf_model mdl" and "0 < number_of_vacancies p"
    and "number_of_vacancies p < number_of_atoms mdl"
  shows "\<exists>mdl' g'. add_vacancies p mdl g = Inr (mdl', g')
     \<and> number_of_atoms mdl' = number_of_atoms mdl - number_of_vacancies p
     \<and> (\<forall>a \<in> {0..<number_of_atoms mdl'}. \<exists>c. slot (neighbor_number mdl') a = Some c
          \<and> (\<forall>m \<in> {0..<c}. \<exists>t. slot (neighbor_list mdl') (a * max_neighbor mdl' + m) = Some t
                \<and> 0 \<le> t \<and> t < number_of_atoms mdl'))"
proof -
  let ?N = "number_of_atoms mdl" and ?k = "number_of_vacancies p"
  let ?isv = "vacancy_flags g ?N ?k"
  have k: "0 \<le> ?k" "?k \<le> ?N" using assms by simp_all
  from add_vacancies_ok[OF assms(1) k, of g]
  obtain mt where res: "add_vacancies p mdl g = Inr (mt, skip_draws (nat ?N) g)"
    and na: "number_of_atoms mt = ?N - ?k" and mn: "max_neighbor mt = max_neighbor mdl"
    and rb: "\<And>n. 0 \<le> n \<Longrightarrow> n < ?N \<Longrightarrow> slot ?isv n = Some 0 \<Longrightarrow> rebuilt ?isv mdl mt n"
    and sj: "\<And>a. 0 \<le> a \<Longrightarrow> a < number_of_atoms mt \<Longrightarrow>
           \<exists>n. 0 \<le> n \<and> n < ?N \<and> slot ?isv n = Some 0 \<and> new_index ?isv n = a"
    by auto
  have tot: "new_index ?isv ?N = ?N - ?k" by (rule new_index_flags_total[OF k])
  have row_ok: "\<exists>c. slot (neighbor_number mt) a = Some c
          \<and> (\<forall>m \<in> {0..<c}. \<exists>t. slot (neighbor_list mt) (a * max_neighbor mt + m) = Some t
                \<and> 0 \<le> t \<and> t < number_of_atoms mt)"
    if a: "0 \<le> a" "a < number_of_atoms mt" for a
  proof -
    from sj[OF a] obtain n where n: "0 \<le> n" "n < ?N" "slot ?isv n = Some 0"
      "new_index ?isv n = a" by blast
    let ?S = "filter (kept ?isv) (hops mdl n)"
    have c: "slot (neighbor_number mt) a = Some (int (length ?S))"
      and rw: "row mt a (length ?S) = map (renumber ?isv) ?S"
      using rb[OF n(1,2,3)] by (simp_all add: rebuilt_def n(4))
    have "\<exists>t. slot (neighbor_list mt) (a * max_neighbor mt + m) = Some t
                \<and> 0 \<le> t \<and> t < number_of_atoms mt"
      if m: "0 \<le> m" "m < int (length ?S)" for m
    proof -
      have i: "nat m < length ?S" using m by simp
      have "row mt a (length ?S) ! nat m = renumber ?isv (?S ! nat m)"
        using i by (simp add: rw)
      then have e: "cells mt (a * max_neighbor mt + m) = renumber ?isv (?S ! nat m)"
        using i m by (simp add: row_def)
      have "?S ! nat m \<in> set ?S" using i by (rule nth_mem)
      then have hk: "?S ! nat m \<in> set (hops mdl n)" "kept ?isv (?S ! nat m)"
        unfolding set_filter by blast+
      from hops_targets[OF assms(1) n(1,2) hk(1)] obtain t where
        t: "fst (?S ! nat m) = Some t" "0 \<le> t" "t < ?N" by blast
      have st: "slot ?isv t = Some 0" using hk(2) t by (simp add: kept_def)
      have "new_index ?isv t < new_index ?isv ?N" by (rule new_index_less[OF t(2,3) st])
      then have "new_index ?isv t < number_of_atoms mt" by (simp add: tot na)
      moreover have "slot (neighbor_list mt) (a * max_neighbor mt + m) = Some (new_index ?isv t)"
        using e t by (simp add: cells_def renumber_def)
      ultimately show ?thesis by (simp add: new_index_nonneg)
    qed
    then show ?thesis using c by auto
  qed
  show ?thesis
    using res na row_ok by (intro exI[of _ mt] exI[of _ "skip_draws (nat ?N) g"]) simp
qed

theorem add_vacancies_atoms_and_targets_witness:
  "wf_model example_model \<and> 0 < number_of_vacancies one_vacancy
   \<and> number_of_vacancies one_vacancy < number_of_atoms example_model
   \<and> (\<exists>mdl' g'. add_vacancies one_vacancy example_model example_generator = Inr (mdl', g')
     \<and> number_of_atoms mdl' = 3
     \<and> (\<forall>a \<in> {0..<number_of_atoms mdl'}. \<exists>c. slot (neighbor_number mdl') a = Some c
          \<and> (\<forall>m \<in> {0..<c}. \<exists>t. slot (neighbor_list mdl') (a * max_neighbor mdl' + m) = Some t
                \<and> 0 \<le> t \<and> t < number_of_atoms mdl')))"
  using add_vacancies_atoms_and_targets[of example_model one_vacancy example_generator]
    wf_example_model
  by simp

text \<open>
  On a well-formed pristine table, let \<^verbatim>\<open>is_vacancy\<close> be the marks that \<^verbatim>\<open>specify_vacancies\<close>
  computes and \<open>n\<close> a surviving atom with \<open>c\<close> neighbours in the pristine table. After
  \<^verbatim>\<open>add_vacancies\<close> the neighbour count of \<open>n\<close>, at its new index, is \<open>c\<close> minus the number of
  its pristine hops whose target is marked vacant; its hops are the pristine hops with a
  surviving target, in the order of the pristine table, each with its amplitude and
  displacement and with the new index of its target; and the new count is at most
  \<^verbatim>\<open>max_neighbor\<close>.
\<close>

theorem add_vacancies_neighbor_rows:
  assumes "wf_model mdl" and "0 < number_of_vacancies p"
    and "number_of_vacancies p < number_of_atoms mdl"
    and "specify_vacancies (number_of_vacancies p) (replicate (nat (number_of_atoms mdl)) None)
           (number_of_atoms mdl) g = Inr (is_vacancy, g1)"
    and "0 \<le> n" and "n < number_of_atoms mdl" and "slot is_vacancy n = Some 0"
  shows "\<exists>mdl' g' c. add_vacancies p mdl g = Inr (mdl', g')
     \<and> slot (neighbor_number mdl) n = Some c
     \<and> slot (neighbor_number mdl') (new_index is_vacancy n)
         = Some (c - int (length (filter (marked is_vacancy) (hops mdl n))))
     \<and> hops mdl' (new_index is_vacancy n)
         = map (renumber is_vacancy) (filter (kept is_vacancy) (hops mdl n))
     \<and> int (length (hops mdl' (new_index is_vacancy n))) \<le> max_neighbor mdl'"
proof -
  let ?N = "number_of_atoms mdl" and ?k = "number_of_vacancies p"
  have k: "0 \<le> ?k" "?k \<le> ?N" using assms by simp_all
  have isv: "is_vacancy = vacancy_flags g ?N ?k"
    using assms(4) specify_vacancies_ok[OF k, of "replicate (nat ?N) None" g]
    by (simp add: vacancy_flags_def)
  let ?S = "filter (kept is_vacancy) (hops mdl n)"
  from add_vacancies_ok[OF assms(1) k, of g]
  obtain mt where res: "add_vacancies p mdl g = Inr (mt, skip_draws (nat ?N) g)"
    and mn: "max_neighbor mt = max_neighbor mdl"
    and rb: "rebuilt is_vacancy mdl mt n"
    using assms(5,6,7) unfolding isv by auto
  have c': "slot (neighbor_number mt) (new_index is_vacancy n) = Some (int (length ?S))"
    and rw: "row mt (new_index is_vacancy n) (length ?S) = map (renumber is_vacancy) ?S"
    using rb by (simp_all add: rebuilt_def)
  have c: "slot (neighbor_number mdl) n = Some (int (length (hops mdl n)))"
    using length_hops(2)[OF assms(1,5,6)] .
  have cnt: "int (length ?S)
        = int (length (hops mdl n)) - int (length (filter (marked is_vacancy) (hops mdl n)))"
    using kept_or_marked[OF assms(1,5,6) k, of g] unfolding isv by linarith
  have h: "hops mt (new_index is_vacancy n) = map (renumber is_vacancy) ?S"
    using c' rw by (simp add: hops_def)
  have "length ?S \<le> length (hops mdl n)" by (rule length_filter_le)
  then have "int (length ?S) \<le> max_neighbor mdl"
    using length_hops(1)[OF assms(1,5,6)] by linarith
  then have le: "int (length (hops mt (new_index is_vacancy n))) \<le> max_neighbor mt"
    by (simp add: h mn)
  show ?thesis
    using res c c' cnt h le
    by (intro exI[of _ mt] exI[of _ "skip_draws (nat ?N) g"] exI[of _ "int (length (hops mdl n))"])
      simp
qed

theorem add_vacancies_neighbor_rows_witness:
  "wf_model example_model \<and> 0 < number_of_vacancies one_vacancy
   \<and> number_of_vacancies one_vacancy < number_of_atoms example_model
   \<and> specify_vacancies (number_of_vacancies one_vacancy)
        (replicate (nat (number_of_atoms example_model)) None)
        (number_of_atoms example_model) example_generator
      = Inr ([Some 0, Some 1, Some 0, Some 0], skip_draws 4 example_generator)
   \<and> (0::int) \<le> 0 \<and> 0 < number_of_atoms example_model
   \<and> slot [Some 0, Some 1, Some 0, Some (0::int)] 0 = Some 0
   \<and> (\<exists>mdl' g'. add_vacancies one_vacancy example_model example_generator = Inr (mdl', g')
       \<and> slot (neighbor_number mdl') 0 = Some 1
       \<and> hops mdl' 0 = [(Some 1, Some 1, Some 0, Some 1)])"
proof -
  have h: "wf_model example_model" "0 < number_of_vacancies one_vacancy"
    "number_of_vacancies one_vacancy < number_of_atoms example_model"
    "specify_vacancies (number_of_vacancies one_vacancy)
        (replicate (nat (number_of_atoms example_model)) None)
        (number_of_atoms example_model) example_generator
      = Inr ([Some 0, Some 1, Some 0, Some 0], skip_draws 4 example_generator)"
    "(0::int) \<le> 0" "0 < number_of_atoms example_model"
    "slot [Some 0, Some 1, Some 0, Some (0::int)] 0 = Some 0"
    using wf_example_model example_is_vacancy example_flag by simp_all
  from add_vacancies_neighbor_rows[OF h]
  have "\<exists>mdl' g'. add_vacancies one_vacancy example_model example_generator = Inr (mdl', g')
       \<and> slot (neighbor_number mdl') 0 = Some 1
       \<and> hops mdl' 0 = [(Some 1, Some 1, Some 0, Some 1)]"
    by (auto simp: example_hops example_count example_new_index example_flag
        kept_def marked_def renumber_def)
  with h show ?thesis by blast
qed

text \<open>Atom 3 of the example has its one hop to atom 1, the vacancy: the hop is dropped and
  the atom, at its new index 2, keeps no neighbour.\<close>

lemma example_hops_3: "hops example_model 3 = [(Some 1, Some 1, Some 0, Some 1)]"
  by (simp add: hops_def row_def cells_def slot_def example_model_def)

lemma example_count_3: "slot (neighbor_number example_model) 3 = Some 1"
  by (simp add: slot_def example_model_def)

lemma example_new_index_3: "new_index [Some 0, Some 1, Some 0, Some 0] 3 = 2"
  by (simp add: new_index_def upt_conv_Cons)

lemma example_flag_3: "slot [Some 0, Some 1, Some 0, Some (0::int)] 3 = Some 0"
  "slot [Some 0, Some 1, Some 0, Some (0::int)] 1 = Some 1"
  by (simp_all add: slot_def)

theorem add_vacancies_drops_hop:
  "wf_model example_model \<and> 0 < number_of_vacancies one_vacancy
   \<and> number_of_vacancies one_vacancy < number_of_atoms example_model
   \<and> specify_vacancies (number_of_vacancies one_vacancy)
        (replicate (nat (number_of_atoms example_model)) None)
        (number_of_atoms example_model) example_generator
      = Inr ([Some 0, Some 1, Some 0, Some 0], skip_draws 4 example_generator)
   \<and> (0::int) \<le> 3 \<and> 3 < number_of_atoms example_model
   \<and> slot [Some 0, Some 1, Some 0, Some (0::int)] 3 = Some 0
   \<and> hops example_model 3 = [(Some 1, Some 1, Some 0, Some 1)]
   \<and> (\<exists>mdl' g'. add_vacancies one_vacancy example_model example_generator = Inr (mdl', g')
       \<and> slot (neighbor_number mdl') 2 = Some 0
       \<and> hops mdl' 2 = [])"
proof -
  have h: "wf_model example_model" "0 < number_of_vacancies one_vacancy"
    "number_of_vacancies one_vacancy < number_of_atoms example_model"
    "specify_vacancies (number_of_vacancies one_vacancy)
        (replicate (nat (number_of_atoms example_model)) None)
        (number_of_atoms example_model) example_generator
      = Inr ([Some 0, Some 1, Some 0, Some 0], skip_draws 4 example_generator)"
    "(0::int) \<le> 3" "3 < number_of_atoms example_model"
    "slot [Some 0, Some 1, Some 0, Some (0::int)] 3 = Some 0"
    using wf_example_model example_is_vacancy example_flag_3 by simp_all
  from add_vacancies_neighbor_rows[OF h]
  have "\<exists>mdl' g'. add_vacancies one_vacancy example_model example_generator = Inr (mdl', g')
       \<and> slot (neighbor_number mdl') 2 = Some 0
       \<and> hops mdl' 2 = []"
    by (auto simp: example_hops_3 example_count_3 example_new_index_3 example_flag_3
        kept_def marked_def renumber_def)
  with h example_hops_3 show ?thesis by blast
qed

section \<open>Expanding the unit cell\<close>

lemma build_example_lattice: "build_lattice example_parameters example_lattice = Inr example_model"
  by code_simp

lemma y_transport_xx:
  "case build_lattice example_parameters y_transport_lattice of
     Inl e \<Rightarrow> False | Inr mdl \<Rightarrow> xx mdl = [Some 1, None]"
  by code_simp

lemma real_hopping_stored:
  "case build_lattice example_parameters real_hopping_lattice of
     Inl e \<Rightarrow> False
   | Inr mdl \<Rightarrow> hopping_real mdl = [Some (- 2)] \<and> hopping_imag mdl = [Some 0]"
  by code_simp

lemma accepted_checks:
  assumes "accepted_lattice f"
  shows "0 < axis (N_cell f) 0" "0 < axis (N_cell f) 1" "0 < axis (N_cell f) 2"
    "axis (pbc_flags f) 0 = 0 \<or> axis (pbc_flags f) 0 = 1"
    "axis (pbc_flags f) 1 = 0 \<or> axis (pbc_flags f) 1 = 1"
    "axis (pbc_flags f) 2 = 0 \<or> axis (pbc_flags f) 2 = 1"
    "transport_direction f = 0 \<or> transport_direction f = 1 \<or> transport_direction f = 2"
    "0 < N_orbital f" "0 < max_neighbor_in f"
proof -
  from assms have c: "check_lattice f = Inr ()" by (simp add: accepted_lattice_def)
  from c show "0 < axis (N_cell f) 0" "0 < axis (N_cell f) 1" "0 < axis (N_cell f) 2"
    "axis (pbc_flags f) 0 = 0 \<or> axis (pbc_flags f) 0 = 1"
    "axis (pbc_flags f) 1 = 0 \<or> axis (pbc_flags f) 1 = 1"
    "axis (pbc_flags f) 2 = 0 \<or> axis (pbc_flags f) 2 = 1"
    "transport_direction f = 0 \<or> transport_direction f = 1 \<or> transport_direction f = 2"
    "0 < N_orbital f" "0 < max_neighbor_in f"
    unfolding check_lattice_def by (auto simp: bnd_eq_Inr)
qed

lemma accepted_hops:
  assumes "accepted_lattice f" and "0 \<le> m" and "m < N_orbital f"
  shows "hop_count f m \<le> max_neighbor_in f"
    and "0 \<le> i \<Longrightarrow> i < hop_count f m \<Longrightarrow>
         0 \<le> entry_row 3 (hop_entry f m i) \<and> entry_row 3 (hop_entry f m i) < N_orbital f"
proof -
  from assms have a: "hop_count f m \<le> max_neighbor_in f
           \<and> (\<forall>e \<in> set (hoppings f ! nat m). 0 \<le> entry_row 3 e \<and> entry_row 3 e < N_orbital f)"
    by (simp add: accepted_lattice_def)
  then show "hop_count f m \<le> max_neighbor_in f" by simp
  assume "0 \<le> i" "i < hop_count f m"
  then have "hop_entry f m i \<in> set (hoppings f ! nat m)"
    by (simp add: hop_entry_def hop_count_def)
  with a show "0 \<le> entry_row 3 (hop_entry f m i) \<and> entry_row 3 (hop_entry f m i) < N_orbital f"
    by blast
qed

lemma token_ok: "0 \<le> i \<Longrightarrow> nat i < length ts \<Longrightarrow> token ts i = Inr (ts ! nat i)"
  by (simp add: token_def in_bounds_def)

lemma read_positions_ok:
  assumes acc: "accepted_lattice f"
    and len: "length xc = nat (N_orbital f)" "length yc = nat (N_orbital f)"
      "length zc = nat (N_orbital f)"
  shows "\<exists>x_cell y_cell z_cell. read_positions f (xc, yc, zc) = Inr (x_cell, y_cell, z_cell)
     \<and> cell_arrays f x_cell y_cell z_cell (N_orbital f)"
proof -
  let ?No = "N_orbital f"
  let ?body = "\<lambda>n (x_cell, y_cell, z_cell).
          bnd (token (positions f) n) (\<lambda>(a, b, c).
          bnd (wr x_cell n a) (\<lambda>x_cell.
          bnd (wr y_cell n b) (\<lambda>y_cell.
          bnd (wr z_cell n c) (\<lambda>z_cell.
          Inr (x_cell, y_cell, z_cell)))))"
  let ?I = "\<lambda>n (x_cell, y_cell, z_cell). cell_arrays f x_cell y_cell z_cell n"
  have No: "0 \<le> ?No" using accepted_checks(8)[OF acc] by simp
  have lp: "nat ?No \<le> length (positions f)" using acc by (simp add: accepted_lattice_def)
  have "\<exists>t. for_loop 0 ?No ?body (xc, yc, zc) = Inr t \<and> ?I ?No t"
  proof (rule for_loop_rule[where I = ?I])
    show "?I 0 (xc, yc, zc)" using len by (auto simp: cell_arrays_def)
    show "0 \<le> ?No" by fact
  next
    fix n st assume n: "0 \<le> n" "n < ?No" and inv: "?I n st"
    obtain x y z where st: "st = (x, y, z)" by (cases st)
    obtain a b c where p: "positions f ! nat n = (a, b, c)" by (cases "positions f ! nat n")
    have ca: "cell_arrays f x y z n" using inv st by simp
    then have l: "length x = nat ?No" "length y = nat ?No" "length z = nat ?No"
      by (simp_all add: cell_arrays_def)
    have lt: "nat n < nat ?No" using n by simp
    have tk: "token (positions f) n = Inr (a, b, c)" using n lt lp p by (simp add: token_ok)
    have b: "?body n st = Inr (x[nat n := Some a], y[nat n := Some b], z[nat n := Some c])"
      unfolding st using n lt l by (simp add: tk wr_ok)
    have "cell_arrays f (x[nat n := Some a]) (y[nat n := Some b]) (z[nat n := Some c]) (n + 1)"
      unfolding cell_arrays_def
    proof (intro conjI allI impI)
      fix j assume j: "0 \<le> j \<and> j < n + 1"
      show "slot (x[nat n := Some a]) j = Some (fst (orbital_position f j))"
        "slot (y[nat n := Some b]) j = Some (fst (snd (orbital_position f j)))"
        "slot (z[nat n := Some c]) j = Some (snd (snd (orbital_position f j)))"
        using j n lt l ca p
        by (cases "j = n"; simp add: slot_update orbital_position_def cell_arrays_def)+
    qed (simp_all add: l)
    then have i': "?I (n + 1) (x[nat n := Some a], y[nat n := Some b], z[nat n := Some c])"
      by simp
    show "\<exists>t'. ?body n st = Inr t' \<and> ?I (n + 1) t'"
      by (rule exI[of _ "(x[nat n := Some a], y[nat n := Some b], z[nat n := Some c])"])
        (rule conjI[OF b i'])
  qed
  then show ?thesis unfolding read_positions_def by auto
qed

lemma six_rows:
  assumes "length (tbl :: 'a list) = 6"
  obtains h0 h1 h2 h3 h4 h5 where "tbl = [h0, h1, h2, h3, h4, h5]"
proof -
  from assms have "tbl = [tbl ! 0, tbl ! 1, tbl ! 2, tbl ! 3, tbl ! 4, tbl ! 5]"
    by (auto simp: list_eq_iff_nth_eq less_Suc_eq numeral_Bit0 numeral_Bit1 nth_Cons')
  then show ?thesis by (rule that)
qed

lemma less_six: "r < 6 \<longleftrightarrow> r = 0 \<or> r = 1 \<or> r = 2 \<or> r = 3 \<or> r = 4 \<or> r = (5::nat)"
  by arith

lemma write_entry:
  assumes len: "length tbl = 6" and k: "0 \<le> k" "\<forall>r < 6. nat k < length (tbl ! r)"
  shows "\<exists>tbl'.
       bnd (wr2 tbl 0 k nx) (\<lambda>hopping_data.
       bnd (wr2 hopping_data 1 k ny) (\<lambda>hopping_data.
       bnd (wr2 hopping_data 2 k nz) (\<lambda>hopping_data.
       bnd (wr2 hopping_data 3 k m_neighbor) (\<lambda>hopping_data.
       bnd (wr2 hopping_data 4 k (real_to_int t_real)) (\<lambda>hopping_data.
       wr2 hopping_data 5 k (real_to_int t_imag)))))) = Inr tbl'
     \<and> length tbl' = 6 \<and> (\<forall>r < 6. length (tbl' ! r) = length (tbl ! r))
     \<and> (\<forall>r < 6. \<forall>j. 0 \<le> j \<longrightarrow> slot (tbl' ! r) j
           = (if j = k then Some (entry_row r (nx, ny, nz, m_neighbor, t_real, t_imag))
              else slot (tbl ! r) j))"
proof -
  from six_rows[OF len] obtain h0 h1 h2 h3 h4 h5 where t: "tbl = [h0, h1, h2, h3, h4, h5]" .
  have b: "nat k < length h0" "nat k < length h1" "nat k < length h2" "nat k < length h3"
    "nat k < length h4" "nat k < length h5"
    using k(2) unfolding t less_six by simp_all
  show ?thesis
    unfolding t using k(1) b
    by (simp add: wr2_def wr_ok less_six entry_row_def slot_update)
qed

lemma pair_index_inj:
  fixes a a' c c' mn :: int
  assumes "0 \<le> c" "c < mn" "0 \<le> c'" "c' < mn" "a * mn + c = a' * mn + c'"
  shows "a = a' \<and> c = c'"
proof -
  have "a = a'"
  proof (rule ccontr)
    assume "a \<noteq> a'"
    then consider "a < a'" | "a' < a" by linarith
    then show False
    proof cases
      case 1
      from pair_index_lower[OF 1 assms(1,2)] assms show False by simp
    next
      case 2
      from pair_index_lower[OF 2 assms(3,4)] assms show False by simp
    qed
  qed
  with assms show ?thesis by simp
qed

lemma hopping_table_next:
  "hopping_table f tbl m (hop_count f m) \<Longrightarrow> hopping_table f tbl (m + 1) 0"
  unfolding hopping_table_def
  by (intro conjI allI impI; (elim conjE)?) (simp, simp, metis not_less zless_add1_eq)

lemma read_entries_loop:
  assumes acc: "accepted_lattice f" and m: "0 \<le> m" "m < N_orbital f"
    and ht: "hopping_table f tbl m 0"
  shows "\<exists>tbl'. for_loop 0 (int (length (hoppings f ! nat m)))
                 (\<lambda>n hopping_data.
                    bnd (token (hoppings f ! nat m) n) (\<lambda>(nx, ny, nz, m_neighbor, t_real, t_imag).
                    let k = m * max_neighbor_in f + n in
                    bnd (wr2 hopping_data 0 k nx) (\<lambda>hopping_data.
                    bnd (wr2 hopping_data 1 k ny) (\<lambda>hopping_data.
                    bnd (wr2 hopping_data 2 k nz) (\<lambda>hopping_data.
                    bnd (wr2 hopping_data 3 k m_neighbor) (\<lambda>hopping_data.
                    bnd (wr2 hopping_data 4 k (real_to_int t_real)) (\<lambda>hopping_data.
                    wr2 hopping_data 5 k (real_to_int t_imag))))))))
                 tbl = Inr tbl'
     \<and> hopping_table f tbl' (m + 1) 0"
    (is "\<exists>tbl'. for_loop 0 ?c ?body tbl = Inr tbl' \<and> _")
proof -
  let ?mn = "max_neighbor_in f" and ?No = "N_orbital f"
  have c: "?c = hop_count f m" by (simp add: hop_count_def)
  have cmn: "hop_count f m \<le> ?mn" using accepted_hops(1)[OF acc m] .
  have "\<exists>t. for_loop 0 ?c ?body tbl = Inr t \<and> hopping_table f t m ?c"
  proof (rule for_loop_rule[where I = "\<lambda>n t. hopping_table f t m n"])
    show "hopping_table f tbl m 0" by fact
    show "0 \<le> ?c" by simp
  next
    fix n t assume n: "0 \<le> n" "n < ?c" and inv: "hopping_table f t m n"
    obtain nx ny nz mt tr ti where e: "hop_entry f m n = (nx, ny, nz, mt, tr, ti)"
      by (cases "hop_entry f m n")
    have tk: "token (hoppings f ! nat m) n = Inr (nx, ny, nz, mt, tr, ti)"
      using n e by (simp add: token_ok hop_entry_def)
    define k where "k = m * ?mn + n"
    have nmn: "n < ?mn" using n c cmn by simp
    have k0: "0 \<le> k" and kb: "nat k < nat (?No * ?mn)"
      unfolding k_def using pair_index_bound[OF m n(1) nmn] by simp_all
    have len: "length t = 6" and rows: "\<forall>r < 6. length (t ! r) = nat (?No * ?mn)"
      and old: "\<And>m' i r. 0 \<le> m' \<Longrightarrow> 0 \<le> i \<Longrightarrow>
            (m' < m \<and> i < hop_count f m' \<or> m' = m \<and> i < n) \<Longrightarrow> r < 6 \<Longrightarrow>
            slot (t ! r) (m' * ?mn + i) = Some (entry_row r (hop_entry f m' i))"
      using inv unfolding hopping_table_def by blast+
    from write_entry[OF len k0, of nx ny nz mt tr ti] rows kb
    obtain t' where w: "bnd (wr2 t 0 k nx) (\<lambda>hopping_data.
       bnd (wr2 hopping_data 1 k ny) (\<lambda>hopping_data.
       bnd (wr2 hopping_data 2 k nz) (\<lambda>hopping_data.
       bnd (wr2 hopping_data 3 k mt) (\<lambda>hopping_data.
       bnd (wr2 hopping_data 4 k (real_to_int tr)) (\<lambda>hopping_data.
       wr2 hopping_data 5 k (real_to_int ti)))))) = Inr t'"
      and len': "length t' = 6" and rows': "\<forall>r < 6. length (t' ! r) = length (t ! r)"
      and sl: "\<And>r j. r < 6 \<Longrightarrow> 0 \<le> j \<Longrightarrow> slot (t' ! r) j
           = (if j = k then Some (entry_row r (nx, ny, nz, mt, tr, ti)) else slot (t ! r) j)"
      by auto
    have b: "?body n t = Inr t'" using w by (simp add: tk k_def Let_def)
    have "slot (t' ! r) (m' * ?mn + i) = Some (entry_row r (hop_entry f m' i))"
      if h: "0 \<le> m'" "0 \<le> i" "m' < m \<and> i < hop_count f m' \<or> m' = m \<and> i < n + 1" "r < 6"
      for m' i r
    proof (cases "m' = m \<and> i = n")
      case True
      then show ?thesis using sl[OF h(4), of k] k0 e by (simp add: k_def)
    next
      case False
      have imn: "i < ?mn"
      proof (cases "m' < m")
        case True
        then have "m' < ?No" using m by simp
        from accepted_hops(1)[OF acc h(1) this] h(3) True show ?thesis by simp
      next
        case False
        then show ?thesis using h(3) nmn by simp
      qed
      have "m' * ?mn + i \<noteq> k"
        using pair_index_inj[OF h(2) imn n(1) nmn, of m' m] False unfolding k_def by blast
      moreover have "0 \<le> m' * ?mn + i" using h(1,2) imn by simp
      moreover have "m' < m \<and> i < hop_count f m' \<or> m' = m \<and> i < n" using h(3) False by auto
      ultimately show ?thesis using sl[OF h(4), of "m' * ?mn + i"] old[OF h(1,2) _ h(4)] by simp
    qed
    then have i': "hopping_table f t' m (n + 1)"
      unfolding hopping_table_def using len' rows' rows by simp
    show "\<exists>t'. ?body n t = Inr t' \<and> hopping_table f t' m (n + 1)"
      by (rule exI[of _ t']) (rule conjI[OF b i'])
  qed
  then show ?thesis using hopping_table_next[of f _ m] unfolding c by blast
qed

lemma read_hoppings_ok:
  assumes acc: "accepted_lattice f" and noh0: "length noh0 = nat (N_orbital f)"
    and tbl0: "length tbl0 = 6"
      "\<forall>r < 6. length (tbl0 ! r) = nat (N_orbital f * max_neighbor_in f)"
  shows "\<exists>noh tbl. read_hoppings f (noh0, tbl0) = Inr (noh, tbl)
     \<and> length noh = nat (N_orbital f)
     \<and> (\<forall>m. 0 \<le> m \<and> m < N_orbital f \<longrightarrow> slot noh m = Some (hop_count f m))
     \<and> hopping_table f tbl (N_orbital f) 0"
proof -
  let ?No = "N_orbital f"
  let ?inner = "\<lambda>m. (\<lambda>n hopping_data.
                    bnd (token (hoppings f ! nat m) n) (\<lambda>(nx, ny, nz, m_neighbor, t_real, t_imag).
                    let k = m * max_neighbor_in f + n in
                    bnd (wr2 hopping_data 0 k nx) (\<lambda>hopping_data.
                    bnd (wr2 hopping_data 1 k ny) (\<lambda>hopping_data.
                    bnd (wr2 hopping_data 2 k nz) (\<lambda>hopping_data.
                    bnd (wr2 hopping_data 3 k m_neighbor) (\<lambda>hopping_data.
                    bnd (wr2 hopping_data 4 k (real_to_int t_real)) (\<lambda>hopping_data.
                    wr2 hopping_data 5 k (real_to_int t_imag))))))))"
  let ?body = "\<lambda>m (number_of_hoppings, hopping_data).
          bnd (token (hoppings f) m) (\<lambda>entries.
          bnd (wr number_of_hoppings m (int (length entries))) (\<lambda>number_of_hoppings.
          bnd (for_loop 0 (int (length entries))
                 (\<lambda>n hopping_data.
                    bnd (token entries n) (\<lambda>(nx, ny, nz, m_neighbor, t_real, t_imag).
                    let k = m * max_neighbor_in f + n in
                    bnd (wr2 hopping_data 0 k nx) (\<lambda>hopping_data.
                    bnd (wr2 hopping_data 1 k ny) (\<lambda>hopping_data.
                    bnd (wr2 hopping_data 2 k nz) (\<lambda>hopping_data.
                    bnd (wr2 hopping_data 3 k m_neighbor) (\<lambda>hopping_data.
                    bnd (wr2 hopping_data 4 k (real_to_int t_real)) (\<lambda>hopping_data.
                    wr2 hopping_data 5 k (real_to_int t_imag))))))))
                 hopping_data) (\<lambda>hopping_data.
          Inr (number_of_hoppings, hopping_data))))"
  let ?I = "\<lambda>m (noh, tbl). length noh = nat ?No
     \<and> (\<forall>m'. 0 \<le> m' \<and> m' < m \<longrightarrow> slot noh m' = Some (hop_count f m'))
     \<and> hopping_table f tbl m 0"
  have No: "0 \<le> ?No" using accepted_checks(8)[OF acc] by simp
  have lh: "nat ?No \<le> length (hoppings f)" using acc by (simp add: accepted_lattice_def)
  have "\<exists>t. for_loop 0 ?No ?body (noh0, tbl0) = Inr t \<and> ?I ?No t"
  proof (rule for_loop_rule[where I = ?I])
    show "?I 0 (noh0, tbl0)" using noh0 tbl0 by (auto simp: hopping_table_def)
    show "0 \<le> ?No" by fact
  next
    fix m st assume m: "0 \<le> m" "m < ?No" and inv: "?I m st"
    obtain noh tbl where st: "st = (noh, tbl)" by (cases st)
    have ln: "length noh = nat ?No"
      and old: "\<And>m'. 0 \<le> m' \<Longrightarrow> m' < m \<Longrightarrow> slot noh m' = Some (hop_count f m')"
      and ht: "hopping_table f tbl m 0"
      using inv unfolding st by auto
    have lt: "nat m < nat ?No" using m by simp
    have tk: "token (hoppings f) m = Inr (hoppings f ! nat m)"
      using m lt lh by (simp add: token_ok)
    have w: "wr noh m (int (length (hoppings f ! nat m)))
             = Inr (noh[nat m := Some (hop_count f m)])"
      using m lt ln by (simp add: wr_ok hop_count_def)
    from read_entries_loop[OF acc m ht] obtain tbl' where
      lp: "for_loop 0 (int (length (hoppings f ! nat m))) (?inner m) tbl = Inr tbl'"
      and ht': "hopping_table f tbl' (m + 1) 0" by blast
    have b: "?body m st = Inr (noh[nat m := Some (hop_count f m)], tbl')"
      unfolding st using lp by (simp add: tk w)
    have "slot (noh[nat m := Some (hop_count f m)]) m' = Some (hop_count f m')"
      if "0 \<le> m'" "m' < m + 1" for m'
      using that m lt ln old[of m'] by (cases "m' = m") (simp_all add: slot_update)
    then have i': "?I (m + 1) (noh[nat m := Some (hop_count f m)], tbl')"
      using ln ht' by simp
    show "\<exists>t'. ?body m st = Inr t' \<and> ?I (m + 1) t'"
      by (rule exI[of _ "(noh[nat m := Some (hop_count f m)], tbl')"]) (rule conjI[OF b i'])
  qed
  then show ?thesis unfolding read_hoppings_def by auto
qed

lemma rd2_table:
  assumes acc: "accepted_lattice f" and ht: "hopping_table f tbl (N_orbital f) 0"
    and m: "0 \<le> m" "m < N_orbital f" and i: "0 \<le> i" "i < hop_count f m" and r: "r < 6"
  shows "rd2 tbl r (m * max_neighbor_in f + i) = Inr (entry_row r (hop_entry f m i))"
proof -
  let ?mn = "max_neighbor_in f"
  have imn: "i < ?mn" using accepted_hops(1)[OF acc m] i by simp
  have k: "0 \<le> m * ?mn + i" "nat (m * ?mn + i) < nat (N_orbital f * ?mn)"
    using pair_index_bound[OF m i(1) imn] by simp_all
  have len: "length (tbl ! r) = nat (N_orbital f * ?mn)"
    using ht r unfolding hopping_table_def by blast
  have "slot (tbl ! r) (m * ?mn + i) = Some (entry_row r (hop_entry f m i))"
    using ht m i r unfolding hopping_table_def by blast
  then show ?thesis unfolding rd2_def using k len by (simp add: rd_ok slot_def)
qed

lemma cell_arrays_rd:
  assumes "cell_arrays f xc yc zc (N_orbital f)" and "0 \<le> j" and "j < N_orbital f"
  shows "rd xc j = Inr (fst (orbital_position f j))"
    and "rd yc j = Inr (fst (snd (orbital_position f j)))"
    and "rd zc j = Inr (snd (snd (orbital_position f j)))"
  using assms unfolding cell_arrays_def by (simp_all add: rd_ok slot_def)

lemma emit_hop_step:
  assumes acc: "accepted_lattice f" and ht: "hopping_table f tbl (N_orbital f) 0"
    and ca: "cell_arrays f xc yc zc (N_orbital f)"
    and m: "0 \<le> m" "m < N_orbital f" and i: "0 \<le> i" "i < hop_count f m"
    and mc: "max_neighbor mc = max_neighbor_in f" "pbc mc = map (axis (pbc_flags f)) [0, 1, 2]"
    and k: "k = n1 * max_neighbor_in f + cnt" "0 \<le> k" "nat k < length (neighbor_list mc)"
      "nat k < length (hopping_real mc)" "nat k < length (hopping_imag mc)" "nat k < length (xx mc)"
    and hc: "hop_cells f nx1 ny1 nz1 m (hop_entry f m i) = (v1, v2, v3, v4)"
  shows "emit_hop f xc tbl nx1 ny1 nz1 m n1 i (mc, cnt)
         = (if hop_skipped f nx1 ny1 nz1 (hop_entry f m i) then Inr (mc, cnt)
            else Inr (mc\<lparr>neighbor_list := (neighbor_list mc)[nat k := v1],
                          xx := (xx mc)[nat k := v4],
                          hopping_real := (hopping_real mc)[nat k := v2],
                          hopping_imag := (hopping_imag mc)[nat k := v3]\<rparr>, cnt + 1))"
proof -
  let ?e = "hop_entry f m i"
  let ?td = "transport_direction f"
  have r: "\<And>r. r < 6 \<Longrightarrow> rd2 tbl r (m * max_neighbor_in f + i) = Inr (entry_row r ?e)"
    by (rule rd2_table[OF acc ht m i])
  have td: "nat ?td < 6" using accepted_checks(7)[OF acc] by auto
  have tg: "0 \<le> entry_row 3 ?e" "entry_row 3 ?e < N_orbital f"
    using accepted_hops(2)[OF acc m i] by simp_all
  have x: "rd xc (entry_row 3 ?e) = Inr (fst (orbital_position f (entry_row 3 ?e)))"
    "rd xc m = Inr (fst (orbital_position f m))"
    using cell_arrays_rd(1)[OF ca tg] cell_arrays_rd(1)[OF ca m] by simp_all
  have v: "v1 = Some (find_index (entry_row 0 ?e + nx1) (entry_row 1 ?e + ny1) (entry_row 2 ?e + nz1)
              (axis (N_cell f) 0) (axis (N_cell f) 1) (axis (N_cell f) 2)
              (entry_row 3 ?e) (N_orbital f))"
    "v2 = Some (real_of_int (entry_row 4 ?e))" "v3 = Some (real_of_int (entry_row 5 ?e))"
    "v4 = Some (axis (lattice_constant f) ?td * real_of_int (entry_row (nat ?td) ?e)
            + (fst (orbital_position f (entry_row 3 ?e)) - fst (orbital_position f m)))"
    using hc by (simp_all add: hop_cells_def)
  show ?thesis
    unfolding emit_hop_def
    using k(2-6) r[of 0] r[of 1] r[of 2] r[of 3] r[of 4] r[of 5] r[OF td]
    by (simp add: mc k(1)[symmetric] x v hop_skipped_def Let_def wr_ok)
qed

lemma emit_hops_loop:
  assumes acc: "accepted_lattice f" and ht: "hopping_table f tbl (N_orbital f) 0"
    and ca: "cell_arrays f xc yc zc (N_orbital f)"
    and m: "0 \<le> m" "m < N_orbital f"
    and n1: "0 \<le> n1" "n1 < atoms_of f"
    and ms: "max_neighbor ms = max_neighbor_in f" "pbc ms = map (axis (pbc_flags f)) [0, 1, 2]"
      "length (neighbor_list ms) = nat (atoms_of f * max_neighbor_in f)"
      "length (hopping_real ms) = nat (atoms_of f * max_neighbor_in f)"
      "length (hopping_imag ms) = nat (atoms_of f * max_neighbor_in f)"
      "length (xx ms) = nat (atoms_of f * max_neighbor_in f)"
  shows "\<exists>mt. for_loop 0 (hop_count f m) (emit_hop f xc tbl nx1 ny1 nz1 m n1) (ms, 0)
          = Inr (mt, int (length (emitted f nx1 ny1 nz1 m)))
     \<and> same_frame ms mt
     \<and> (\<forall>j. 0 \<le> j \<and> \<not> (n1 * max_neighbor_in f \<le> j
              \<and> j < n1 * max_neighbor_in f + int (length (emitted f nx1 ny1 nz1 m)))
           \<longrightarrow> cells mt j = cells ms j)
     \<and> row mt n1 (length (emitted f nx1 ny1 nz1 m))
         = map (hop_cells f nx1 ny1 nz1 m) (emitted f nx1 ny1 nz1 m)"
proof -
  let ?mn = "max_neighbor_in f" and ?N = "atoms_of f"
  let ?xs = "hoppings f ! nat m"
  let ?E = "\<lambda>i. filter (\<lambda>e. \<not> hop_skipped f nx1 ny1 nz1 e) (take (nat i) ?xs)"
  let ?body = "emit_hop f xc tbl nx1 ny1 nz1 m n1"
  let ?I = "\<lambda>i (mc, cnt). same_frame ms mc \<and> cnt = int (length (?E i))
     \<and> (\<forall>j. 0 \<le> j \<and> \<not> (n1 * ?mn \<le> j \<and> j < n1 * ?mn + cnt) \<longrightarrow> cells mc j = cells ms j)
     \<and> row mc n1 (nat cnt) = map (hop_cells f nx1 ny1 nz1 m) (?E i)"
  have hcmn: "hop_count f m \<le> ?mn" using accepted_hops(1)[OF acc m] .
  have "\<exists>t. for_loop 0 (hop_count f m) ?body (ms, 0) = Inr t \<and> ?I (hop_count f m) t"
  proof (rule for_loop_rule[where I = ?I])
    show "?I 0 (ms, 0)" by (simp add: row_def)
    show "0 \<le> hop_count f m" by (simp add: hop_count_def)
  next
    fix i st assume i: "0 \<le> i" "i < hop_count f m" and inv: "?I i st"
    obtain mc cnt where st: "st = (mc, cnt)" by (cases st)
    have fr: "same_frame ms mc" and cnt: "cnt = int (length (?E i))"
      and out: "\<And>j. 0 \<le> j \<Longrightarrow> \<not> (n1 * ?mn \<le> j \<and> j < n1 * ?mn + cnt) \<Longrightarrow> cells mc j = cells ms j"
      and rw: "row mc n1 (nat cnt) = map (hop_cells f nx1 ny1 nz1 m) (?E i)"
      using inv unfolding st by auto
    have mnc: "max_neighbor mc = ?mn" using same_frame_fields(1)[OF fr] ms(1) by simp
    have pbcc: "pbc mc = map (axis (pbc_flags f)) [0, 1, 2]"
      using fr ms(2) by (simp add: same_frame_def same_frame5_def)
    have lenc: "length (neighbor_list mc) = nat (?N * ?mn)" "length (hopping_real mc) = nat (?N * ?mn)"
      "length (hopping_imag mc) = nat (?N * ?mn)" "length (xx mc) = nat (?N * ?mn)"
      using same_frame_lengths[OF fr] ms by simp_all
    let ?e = "hop_entry f m i"
    obtain v1 v2 v3 v4 where hc: "hop_cells f nx1 ny1 nz1 m ?e = (v1, v2, v3, v4)"
      by (cases "hop_cells f nx1 ny1 nz1 m ?e")
    define k where "k = n1 * ?mn + cnt"
    have cnti: "0 \<le> cnt" "cnt \<le> i"
    proof -
      show "0 \<le> cnt" using cnt by simp
      have "length (?E i) \<le> length (take (nat i) ?xs)" by (rule length_filter_le)
      also have "\<dots> \<le> nat i" by simp
      finally have "int (length (?E i)) \<le> i" using i by linarith
      then show "cnt \<le> i" using cnt by simp
    qed
    have cmn: "cnt < ?mn" using cnti i hcmn by simp
    have k0: "0 \<le> k" and kN: "nat k < nat (?N * ?mn)"
      unfolding k_def using pair_index_bound[OF n1 cnti(1) cmn] by simp_all
    have step: "?body i (mc, cnt)
         = (if hop_skipped f nx1 ny1 nz1 ?e then Inr (mc, cnt)
            else Inr (mc\<lparr>neighbor_list := (neighbor_list mc)[nat k := v1],
                          xx := (xx mc)[nat k := v4],
                          hopping_real := (hopping_real mc)[nat k := v2],
                          hopping_imag := (hopping_imag mc)[nat k := v3]\<rparr>, cnt + 1))"
      using k0 kN by (intro emit_hop_step[OF acc ht ca m i mnc pbcc k_def _ _ _ _ _ hc])
        (simp_all add: lenc)
    have il: "nat i < length ?xs" using i by (simp add: hop_count_def)
    have E: "?E (i + 1) = ?E i @ (if hop_skipped f nx1 ny1 nz1 ?e then [] else [?e])"
      using i il by (simp add: nat_add_distrib take_Suc_conv_app_nth hop_entry_def)
    show "\<exists>t'. ?body i st = Inr t' \<and> ?I (i + 1) t'"
    proof (cases "hop_skipped f nx1 ny1 nz1 ?e")
      case True
      have i': "?I (i + 1) (mc, cnt)" using fr cnt out rw True by (simp add: E)
      have b: "?body i st = Inr (mc, cnt)" unfolding st using step True by simp
      show ?thesis by (rule exI[of _ "(mc, cnt)"]) (rule conjI[OF b i'])
    next
      case False
      let ?mc = "mc\<lparr>neighbor_list := (neighbor_list mc)[nat k := v1],
                          xx := (xx mc)[nat k := v4],
                          hopping_real := (hopping_real mc)[nat k := v2],
                          hopping_imag := (hopping_imag mc)[nat k := v3]\<rparr>"
      have "same_frame mc ?mc" by (simp add: same_frame_def same_frame5_def)
      then have fr': "same_frame ms ?mc" by (rule same_frame_trans[OF fr])
      have cs: "cells ?mc j = (if j = k then hop_cells f nx1 ny1 nz1 m ?e else cells mc j)"
        if "0 \<le> j" for j
        using that k0 kN by (simp add: cells_def slot_update lenc hc)
      have out': "cells ?mc j = cells ms j"
        if "0 \<le> j" "\<not> (n1 * ?mn \<le> j \<and> j < n1 * ?mn + (cnt + 1))" for j
      proof -
        have "j \<noteq> k" using that cnti by (auto simp: k_def)
        moreover have "\<not> (n1 * ?mn \<le> j \<and> j < n1 * ?mn + cnt)" using that by auto
        ultimately show ?thesis using that cs out by simp
      qed
      have "row ?mc n1 (nat cnt) = row mc n1 (nat cnt)"
      proof (rule row_cong)
        show "max_neighbor ?mc = max_neighbor mc" by simp
        fix j assume "j < nat cnt"
        then have "n1 * max_neighbor mc + int j \<noteq> k" "0 \<le> n1 * max_neighbor mc + int j"
          using n1 mnc cmn by (auto simp: k_def)
        then show "cells ?mc (n1 * max_neighbor mc + int j) = cells mc (n1 * max_neighbor mc + int j)"
          using cs by simp
      qed
      moreover have "cells ?mc (n1 * ?mn + int (nat cnt)) = hop_cells f nx1 ny1 nz1 m ?e"
        using cs[of k] k0 cnti by (simp add: k_def)
      moreover have "row ?mc n1 (nat (cnt + 1))
          = row ?mc n1 (nat cnt) @ [cells ?mc (n1 * ?mn + int (nat cnt))]"
        using cnti mnc by (simp add: nat_add_distrib row_Suc)
      ultimately have rw': "row ?mc n1 (nat (cnt + 1))
          = map (hop_cells f nx1 ny1 nz1 m) (?E (i + 1))"
        using rw False by (simp add: E)
      have i': "?I (i + 1) (?mc, cnt + 1)"
        using fr' out' rw' cnt False by (simp add: E)
      have b: "?body i st = Inr (?mc, cnt + 1)" unfolding st using step False by simp
      show ?thesis by (rule exI[of _ "(?mc, cnt + 1)"]) (rule conjI[OF b i'])
    qed
  qed
  then obtain mt where r: "for_loop 0 (hop_count f m) ?body (ms, 0)
        = Inr (mt, int (length (?E (hop_count f m))))"
    and fin: "?I (hop_count f m) (mt, int (length (?E (hop_count f m))))" by auto
  have h: "?E (hop_count f m) = emitted f nx1 ny1 nz1 m"
    by (simp add: emitted_def hop_count_def)
  show ?thesis
    using r fin unfolding h by (intro exI[of _ mt]) simp
qed

lemma flat_index_bounds:
  assumes "in_lattice f nx ny nz m"
  shows "0 \<le> flat_index f nx ny nz m" and "flat_index f nx ny nz m < atoms_of f"
proof -
  let ?Nx = "axis (N_cell f) 0" and ?Ny = "axis (N_cell f) 1" and ?Nz = "axis (N_cell f) 2"
  let ?No = "N_orbital f"
  from assms have r: "0 \<le> nx" "nx < ?Nx" "0 \<le> ny" "ny < ?Ny" "0 \<le> nz" "nz < ?Nz"
    "0 \<le> m" "m < ?No" by (simp_all add: in_lattice_def)
  have a: "0 \<le> nx * ?Ny + ny" "nx * ?Ny + ny < ?Nx * ?Ny"
    using pair_index_bound[OF r(1,2,3,4)] by simp_all
  have b: "0 \<le> (nx * ?Ny + ny) * ?Nz + nz" "(nx * ?Ny + ny) * ?Nz + nz < ?Nx * ?Ny * ?Nz"
    using pair_index_bound[OF a r(5,6)] by simp_all
  have c: "0 \<le> ((nx * ?Ny + ny) * ?Nz + nz) * ?No + m"
    "((nx * ?Ny + ny) * ?Nz + nz) * ?No + m < ?Nx * ?Ny * ?Nz * ?No"
    using pair_index_bound[OF b r(7,8)] by simp_all
  show "0 \<le> flat_index f nx ny nz m" using c(1) by (simp add: flat_index_def)
  show "flat_index f nx ny nz m < atoms_of f"
    using c(2) by (simp add: flat_index_def atoms_of_def mult.commute mult.left_commute)
qed

lemma flat_index_inj:
  assumes "in_lattice f nx ny nz m" and "in_lattice f nx' ny' nz' m'"
    and "flat_index f nx ny nz m = flat_index f nx' ny' nz' m'"
  shows "nx = nx' \<and> ny = ny' \<and> nz = nz' \<and> m = m'"
proof -
  let ?Ny = "axis (N_cell f) 1" and ?Nz = "axis (N_cell f) 2" and ?No = "N_orbital f"
  from assms(1) have r: "0 \<le> ny" "ny < ?Ny" "0 \<le> nz" "nz < ?Nz" "0 \<le> m" "m < ?No"
    by (simp_all add: in_lattice_def)
  from assms(2) have r': "0 \<le> ny'" "ny' < ?Ny" "0 \<le> nz'" "nz' < ?Nz" "0 \<le> m'" "m' < ?No"
    by (simp_all add: in_lattice_def)
  from pair_index_inj[OF r(5,6) r'(5,6)] assms(3)
  have a: "(nx * ?Ny + ny) * ?Nz + nz = (nx' * ?Ny + ny') * ?Nz + nz'" "m = m'"
    unfolding flat_index_def by blast+
  from pair_index_inj[OF r(3,4) r'(3,4) a(1)]
  have b: "nx * ?Ny + ny = nx' * ?Ny + ny'" "nz = nz'" by blast+
  from pair_index_inj[OF r(1,2) r'(1,2) b(1)] a(2) b(2) show ?thesis by blast
qed

lemma find_index_in_lattice:
  assumes "in_lattice f nx ny nz m"
  shows "find_index nx ny nz (axis (N_cell f) 0) (axis (N_cell f) 1) (axis (N_cell f) 2) m
           (N_orbital f) = flat_index f nx ny nz m"
  using assms by (simp add: find_index_def flat_index_def in_lattice_def Let_def)

lemma flat_index_next:
  "flat_index f nx ny nz (m + 1) = flat_index f nx ny nz m + 1"
  "flat_index f nx ny nz (N_orbital f) = flat_index f nx ny (nz + 1) 0"
  "flat_index f nx ny (axis (N_cell f) 2) 0 = flat_index f nx (ny + 1) 0 0"
  "flat_index f nx (axis (N_cell f) 1) 0 0 = flat_index f (nx + 1) 0 0 0"
  "flat_index f 0 0 0 0 = 0"
  "flat_index f (axis (N_cell f) 0) 0 0 0 = atoms_of f"
  by (simp_all add: flat_index_def atoms_of_def algebra_simps)

lemma length_emitted:
  assumes "accepted_lattice f" and "0 \<le> m" and "m < N_orbital f"
  shows "int (length (emitted f nx ny nz m)) \<le> max_neighbor_in f"
proof -
  have "length (emitted f nx ny nz m) \<le> length (hoppings f ! nat m)"
    unfolding emitted_def by (rule length_filter_le)
  then show ?thesis using accepted_hops(1)[OF assms] by (simp add: hop_count_def)
qed

lemma lattice_frame_refl [simp]: "lattice_frame m m"
  by (simp add: lattice_frame_def)

lemma lattice_frame_trans: "lattice_frame a b \<Longrightarrow> lattice_frame b c \<Longrightarrow> lattice_frame a c"
  by (simp add: lattice_frame_def)

lemma same_frame_lattice: "same_frame a b \<Longrightarrow> lattice_frame a b"
  by (simp add: lattice_frame_def same_frame_def same_frame5_def)

lemma initial_tables_frame:
  assumes "initial_tables p f m0" and "lattice_frame m0 mc"
  shows "initial_tables p f mc"
  using assms by (simp add: initial_tables_def lattice_frame_def)

lemma write_positions:
  assumes ca: "cell_arrays f xc yc zc (N_orbital f)" and m: "0 \<le> m" "m < N_orbital f"
    and n1: "0 \<le> n1"
    and len: "has_charged_impurities p \<Longrightarrow> nat n1 < length (x_atom mc)
        \<and> nat n1 < length (y_atom mc) \<and> nat n1 < length (z_atom mc)"
  shows "\<exists>mc1. (if has_charged_impurities p then
             bnd (rd xc m) (\<lambda>a.
             bnd (wr (x_atom mc) n1 (a + axis (lattice_constant f) 0 * real_of_int nx1)) (\<lambda>xa.
             bnd (rd yc m) (\<lambda>b.
             bnd (wr (y_atom mc) n1 (b + axis (lattice_constant f) 1 * real_of_int ny1)) (\<lambda>ya.
             bnd (rd zc m) (\<lambda>c.
             bnd (wr (z_atom mc) n1 (c + axis (lattice_constant f) 2 * real_of_int nz1)) (\<lambda>za.
             Inr (mc\<lparr>x_atom := xa, y_atom := ya, z_atom := za\<rparr>)))))))
           else Inr mc) = Inr mc1
     \<and> lattice_frame mc mc1 \<and> neighbor_number mc1 = neighbor_number mc
     \<and> neighbor_list mc1 = neighbor_list mc \<and> hopping_real mc1 = hopping_real mc
     \<and> hopping_imag mc1 = hopping_imag mc \<and> xx mc1 = xx mc"
proof (cases "has_charged_impurities p")
  case False
  then show ?thesis by simp
next
  case True
  note r = cell_arrays_rd[OF ca m]
  show ?thesis
    using True n1 len[OF True] by (simp add: r wr_ok lattice_frame_def)
qed

lemma atom_built_cong:
  assumes "neighbor_number b = neighbor_number a" "neighbor_list b = neighbor_list a"
    "hopping_real b = hopping_real a" "hopping_imag b = hopping_imag a" "xx b = xx a"
    "max_neighbor b = max_neighbor a"
  shows "atom_built f b nx ny nz m = atom_built f a nx ny nz m"
  using assms by (simp add: atom_built_def row_def cells_def)

lemma expand_orbital_step:
  assumes acc: "accepted_lattice f" and ht: "hopping_table f tbl (N_orbital f) 0"
    and ca: "cell_arrays f xc yc zc (N_orbital f)"
    and noh: "length noh = nat (N_orbital f)"
      "\<forall>m. 0 \<le> m \<and> m < N_orbital f \<longrightarrow> slot noh m = Some (hop_count f m)"
    and m0: "initial_tables p f m0"
    and c: "in_lattice f nx ny nz m"
    and inv: "expand_inv f m0 (flat_index f nx ny nz m) mc"
  shows "\<exists>mc'. expand_orbital p f xc yc zc noh tbl nx ny nz m mc = Inr mc'
     \<and> expand_inv f m0 (flat_index f nx ny nz m + 1) mc'"
proof -
  let ?mn = "max_neighbor_in f" and ?N = "atoms_of f"
  let ?n1 = "flat_index f nx ny nz m"
  let ?E = "emitted f nx ny nz m"
  have m: "0 \<le> m" "m < N_orbital f" using c by (simp_all add: in_lattice_def)
  have n1: "0 \<le> ?n1" "?n1 < ?N" using flat_index_bounds[OF c] by simp_all
  have fr: "lattice_frame m0 mc"
    and old: "\<And>nx' ny' nz' m'. in_lattice f nx' ny' nz' m' \<Longrightarrow>
        flat_index f nx' ny' nz' m' < ?n1 \<Longrightarrow> atom_built f mc nx' ny' nz' m'"
    using inv unfolding expand_inv_def by blast+
  have itc: "initial_tables p f mc" by (rule initial_tables_frame[OF m0 fr])
  have plen: "has_charged_impurities p \<Longrightarrow> nat ?n1 < length (x_atom mc)
        \<and> nat ?n1 < length (y_atom mc) \<and> nat ?n1 < length (z_atom mc)"
    using itc n1 by (simp add: initial_tables_def)
  from write_positions[OF ca m n1(1) plen, where ?nx1.0 = nx and ?ny1.0 = ny and ?nz1.0 = nz]
  obtain mc1 where w1: "(if has_charged_impurities p then
             bnd (rd xc m) (\<lambda>a.
             bnd (wr (x_atom mc) ?n1 (a + axis (lattice_constant f) 0 * real_of_int nx)) (\<lambda>xa.
             bnd (rd yc m) (\<lambda>b.
             bnd (wr (y_atom mc) ?n1 (b + axis (lattice_constant f) 1 * real_of_int ny)) (\<lambda>ya.
             bnd (rd zc m) (\<lambda>c.
             bnd (wr (z_atom mc) ?n1 (c + axis (lattice_constant f) 2 * real_of_int nz)) (\<lambda>za.
             Inr (mc\<lparr>x_atom := xa, y_atom := ya, z_atom := za\<rparr>)))))))
           else Inr mc) = Inr mc1"
    and fr1: "lattice_frame mc mc1" and same1: "neighbor_number mc1 = neighbor_number mc"
      "neighbor_list mc1 = neighbor_list mc" "hopping_real mc1 = hopping_real mc"
      "hopping_imag mc1 = hopping_imag mc" "xx mc1 = xx mc"
    by blast
  have it1: "initial_tables p f mc1" by (rule initial_tables_frame[OF itc fr1])
  have ms: "max_neighbor mc1 = ?mn" "pbc mc1 = map (axis (pbc_flags f)) [0, 1, 2]"
      "length (neighbor_list mc1) = nat (?N * ?mn)" "length (hopping_real mc1) = nat (?N * ?mn)"
      "length (hopping_imag mc1) = nat (?N * ?mn)" "length (xx mc1) = nat (?N * ?mn)"
      "length (neighbor_number mc1) = nat ?N"
    using it1 by (simp_all add: initial_tables_def)
  have r: "rd noh m = Inr (hop_count f m)" using noh m by (simp add: rd_ok slot_def)
  from emit_hops_loop[OF acc ht ca m n1 ms(1-6), of nx ny nz]
  obtain mt where lp: "for_loop 0 (hop_count f m) (emit_hop f xc tbl nx ny nz m ?n1) (mc1, 0)
          = Inr (mt, int (length ?E))"
    and fr2: "same_frame mc1 mt"
    and out: "\<And>j. 0 \<le> j \<Longrightarrow> \<not> (?n1 * ?mn \<le> j \<and> j < ?n1 * ?mn + int (length ?E))
           \<Longrightarrow> cells mt j = cells mc1 j"
    and rw: "row mt ?n1 (length ?E) = map (hop_cells f nx ny nz m) ?E"
    by blast
  have nnt: "neighbor_number mt = neighbor_number mc" using same_frame_fields(2)[OF fr2] same1 by simp
  have mnt: "max_neighbor mt = ?mn" using same_frame_fields(1)[OF fr2] ms(1) by simp
  let ?mc = "mt\<lparr>neighbor_number := (neighbor_number mt)[nat ?n1 := Some (int (length ?E))]\<rparr>"
  have lnn: "length (neighbor_number mt) = nat ?N" using nnt same1 ms(7) by simp
  have w: "wr (neighbor_number mt) ?n1 (int (length ?E))
           = Inr ((neighbor_number mt)[nat ?n1 := Some (int (length ?E))])"
    using n1 lnn by (simp add: wr_ok)
  have b: "expand_orbital p f xc yc zc noh tbl nx ny nz m mc = Inr ?mc"
    unfolding expand_orbital_def Let_def find_index_in_lattice[OF c]
    using w1 r lp w by simp
  have frt: "lattice_frame m0 mt"
    using lattice_frame_trans[OF lattice_frame_trans[OF fr fr1] same_frame_lattice[OF fr2]] .
  have fr': "lattice_frame m0 ?mc" using frt by (simp add: lattice_frame_def)
  have new: "atom_built f ?mc nx ny nz m"
    using n1 lnn rw by (simp add: atom_built_def slot_def)
  have prev: "atom_built f ?mc nx' ny' nz' m'"
    if c': "in_lattice f nx' ny' nz' m'" and lt: "flat_index f nx' ny' nz' m' < ?n1"
    for nx' ny' nz' m'
  proof -
    let ?a = "flat_index f nx' ny' nz' m'"
    let ?E' = "emitted f nx' ny' nz' m'"
    have a0: "0 \<le> ?a" using flat_index_bounds(1)[OF c'] .
    have m': "0 \<le> m'" "m' < N_orbital f" using c' by (simp_all add: in_lattice_def)
    have le: "int (length ?E') \<le> ?mn" by (rule length_emitted[OF acc m'])
    have o: "atom_built f mc nx' ny' nz' m'" by (rule old[OF c' lt])
    have mn0: "0 < ?mn" using accepted_checks(9)[OF acc] .
    have "row mt ?a (length ?E') = row mc1 ?a (length ?E')"
    proof (rule row_cong)
      show "max_neighbor mt = max_neighbor mc1" using mnt ms(1) by simp
      fix i assume i: "i < length ?E'"
      have "?a * ?mn + int i < ?n1 * ?mn"
        using i le by (intro pair_index_lower[OF lt]) simp_all
      moreover have "0 \<le> ?a * ?mn + int i" using a0 mn0 by simp
      ultimately show "cells mt (?a * max_neighbor mc1 + int i)
                       = cells mc1 (?a * max_neighbor mc1 + int i)"
        unfolding ms(1) by (intro out) simp_all
    qed
    moreover have "row mc1 ?a (length ?E') = row mc ?a (length ?E')"
      using same1 ms(1) itc by (simp add: row_def cells_def initial_tables_def)
    moreover have "slot ((neighbor_number mt)[nat ?n1 := Some (int (length ?E))]) ?a
                   = slot (neighbor_number mc) ?a"
      using a0 n1 lt lnn nnt by (simp add: slot_update)
    ultimately show ?thesis using o by (simp add: atom_built_def)
  qed
  have "atom_built f ?mc nx' ny' nz' m'"
    if c': "in_lattice f nx' ny' nz' m'" and lt: "flat_index f nx' ny' nz' m' < ?n1 + 1"
    for nx' ny' nz' m'
  proof (cases "flat_index f nx' ny' nz' m' = ?n1")
    case True
    from flat_index_inj[OF c' c True] show ?thesis using new by simp
  next
    case False
    then show ?thesis using prev[OF c'] lt by simp
  qed
  then have i': "expand_inv f m0 (?n1 + 1) ?mc"
    unfolding expand_inv_def using fr' by blast
  show ?thesis by (rule exI[of _ ?mc]) (rule conjI[OF b i'])
qed

lemma expand_cells_ok:
  assumes acc: "accepted_lattice f" and ht: "hopping_table f tbl (N_orbital f) 0"
    and ca: "cell_arrays f xc yc zc (N_orbital f)"
    and noh: "length noh = nat (N_orbital f)"
      "\<forall>m. 0 \<le> m \<and> m < N_orbital f \<longrightarrow> slot noh m = Some (hop_count f m)"
    and m0: "initial_tables p f m0"
  shows "\<exists>mdl. expand_cells p f xc yc zc noh tbl m0 = Inr mdl
     \<and> expand_inv f m0 (atoms_of f) mdl"
proof -
  let ?Nx = "axis (N_cell f) 0" and ?Ny = "axis (N_cell f) 1" and ?Nz = "axis (N_cell f) 2"
  let ?No = "N_orbital f"
  let ?orb = "expand_orbital p f xc yc zc noh tbl"
  have pos: "0 \<le> ?Nx" "0 \<le> ?Ny" "0 \<le> ?Nz" "0 \<le> ?No"
    using accepted_checks(1,2,3,8)[OF acc] by simp_all
  have lm: "\<exists>mc'. for_loop 0 ?No (?orb nx ny nz) mc = Inr mc'
        \<and> expand_inv f m0 (flat_index f nx ny (nz + 1) 0) mc'"
    if r: "0 \<le> nx" "nx < ?Nx" "0 \<le> ny" "ny < ?Ny" "0 \<le> nz" "nz < ?Nz"
      and inv: "expand_inv f m0 (flat_index f nx ny nz 0) mc" for nx ny nz mc
  proof -
    have "\<exists>t. for_loop 0 ?No (?orb nx ny nz) mc = Inr t
        \<and> expand_inv f m0 (flat_index f nx ny nz ?No) t"
    proof (rule for_loop_rule[where I = "\<lambda>m t. expand_inv f m0 (flat_index f nx ny nz m) t"])
      show "expand_inv f m0 (flat_index f nx ny nz 0) mc" by fact
      show "0 \<le> ?No" by fact
    next
      fix m t assume m: "0 \<le> m" "m < ?No"
        and i: "expand_inv f m0 (flat_index f nx ny nz m) t"
      have c: "in_lattice f nx ny nz m" using r m by (simp add: in_lattice_def)
      from expand_orbital_step[OF acc ht ca noh m0 c i]
      show "\<exists>t'. ?orb nx ny nz m t = Inr t' \<and> expand_inv f m0 (flat_index f nx ny nz (m + 1)) t'"
        by (simp add: flat_index_next(1))
    qed
    then show ?thesis by (simp add: flat_index_next(2))
  qed
  have lz: "\<exists>mc'. for_loop 0 ?Nz (\<lambda>nz1 mdl. for_loop 0 ?No (?orb nx ny nz1) mdl) mc = Inr mc'
        \<and> expand_inv f m0 (flat_index f nx (ny + 1) 0 0) mc'"
    if r: "0 \<le> nx" "nx < ?Nx" "0 \<le> ny" "ny < ?Ny"
      and inv: "expand_inv f m0 (flat_index f nx ny 0 0) mc" for nx ny mc
  proof -
    have "\<exists>t. for_loop 0 ?Nz (\<lambda>nz1 mdl. for_loop 0 ?No (?orb nx ny nz1) mdl) mc = Inr t
        \<and> expand_inv f m0 (flat_index f nx ny ?Nz 0) t"
    proof (rule for_loop_rule[where I = "\<lambda>nz t. expand_inv f m0 (flat_index f nx ny nz 0) t"])
      show "expand_inv f m0 (flat_index f nx ny 0 0) mc" by fact
      show "0 \<le> ?Nz" by fact
    next
      fix nz t assume nz: "0 \<le> nz" "nz < ?Nz"
        and i: "expand_inv f m0 (flat_index f nx ny nz 0) t"
      from lm[OF r nz i]
      show "\<exists>t'. for_loop 0 ?No (?orb nx ny nz) t = Inr t'
          \<and> expand_inv f m0 (flat_index f nx ny (nz + 1) 0) t'" .
    qed
    then show ?thesis by (simp add: flat_index_next(3))
  qed
  have ly: "\<exists>mc'. for_loop 0 ?Ny (\<lambda>ny1 mdl.
          for_loop 0 ?Nz (\<lambda>nz1 mdl. for_loop 0 ?No (?orb nx ny1 nz1) mdl) mdl) mc = Inr mc'
        \<and> expand_inv f m0 (flat_index f (nx + 1) 0 0 0) mc'"
    if r: "0 \<le> nx" "nx < ?Nx" and inv: "expand_inv f m0 (flat_index f nx 0 0 0) mc" for nx mc
  proof -
    have "\<exists>t. for_loop 0 ?Ny (\<lambda>ny1 mdl.
          for_loop 0 ?Nz (\<lambda>nz1 mdl. for_loop 0 ?No (?orb nx ny1 nz1) mdl) mdl) mc = Inr t
        \<and> expand_inv f m0 (flat_index f nx ?Ny 0 0) t"
    proof (rule for_loop_rule[where I = "\<lambda>ny t. expand_inv f m0 (flat_index f nx ny 0 0) t"])
      show "expand_inv f m0 (flat_index f nx 0 0 0) mc" by fact
      show "0 \<le> ?Ny" by fact
    next
      fix ny t assume ny: "0 \<le> ny" "ny < ?Ny"
        and i: "expand_inv f m0 (flat_index f nx ny 0 0) t"
      from lz[OF r ny i]
      show "\<exists>t'. for_loop 0 ?Nz (\<lambda>nz1 mdl. for_loop 0 ?No (?orb nx ny nz1) mdl) t = Inr t'
          \<and> expand_inv f m0 (flat_index f nx (ny + 1) 0 0) t'" .
    qed
    then show ?thesis by (simp add: flat_index_next(4))
  qed
  have "\<exists>t. for_loop 0 ?Nx (\<lambda>nx1 mdl. for_loop 0 ?Ny (\<lambda>ny1 mdl.
          for_loop 0 ?Nz (\<lambda>nz1 mdl. for_loop 0 ?No (?orb nx1 ny1 nz1) mdl) mdl) mdl) m0 = Inr t
        \<and> expand_inv f m0 (flat_index f ?Nx 0 0 0) t"
  proof (rule for_loop_rule[where I = "\<lambda>nx t. expand_inv f m0 (flat_index f nx 0 0 0) t"])
    have "\<not> (in_lattice f nx ny nz m \<and> flat_index f nx ny nz m < 0)" for nx ny nz m
      using flat_index_bounds(1)[of f nx ny nz m] by auto
    then show "expand_inv f m0 (flat_index f 0 0 0 0) m0"
      unfolding expand_inv_def flat_index_next(5) by (intro conjI lattice_frame_refl) blast
    show "0 \<le> ?Nx" by fact
  next
    fix nx t assume nx: "0 \<le> nx" "nx < ?Nx"
      and i: "expand_inv f m0 (flat_index f nx 0 0 0) t"
    from ly[OF nx i]
    show "\<exists>t'. for_loop 0 ?Ny (\<lambda>ny1 mdl.
          for_loop 0 ?Nz (\<lambda>nz1 mdl. for_loop 0 ?No (?orb nx ny1 nz1) mdl) mdl) t = Inr t'
        \<and> expand_inv f m0 (flat_index f (nx + 1) 0 0 0) t'" .
  qed
  then show ?thesis unfolding expand_cells_def by (simp add: flat_index_next(6))
qed

lemma accepted_sizes:
  assumes acc: "accepted_lattice f"
  shows "0 < atoms_of f" and "atoms_of f \<le> INT_MAX"
    and "0 < atoms_of f * max_neighbor_in f" and "atoms_of f * max_neighbor_in f \<le> INT_MAX"
    and "0 < N_orbital f * max_neighbor_in f" and "N_orbital f * max_neighbor_in f \<le> INT_MAX"
proof -
  let ?Nx = "axis (N_cell f) 0" and ?Ny = "axis (N_cell f) 1" and ?Nz = "axis (N_cell f) 2"
  let ?No = "N_orbital f" and ?mn = "max_neighbor_in f"
  note c = accepted_checks[OF acc]
  have xy: "1 \<le> ?Nx * ?Ny" using c(1,2) by (simp add: int_one_le_iff_zero_less)
  have xyz: "1 \<le> ?Nx * ?Ny * ?Nz" using xy c(3)
    by (metis int_one_le_iff_zero_less mult_pos_pos)
  have e: "atoms_of f = ?No * (?Nx * ?Ny * ?Nz)" by (simp add: atoms_of_def mult.assoc)
  have le: "?No \<le> atoms_of f" unfolding e using c(8) xyz
    by (metis less_imp_le mult.right_neutral mult_left_mono)
  show a0: "0 < atoms_of f" using le c(8) by simp
  show m: "atoms_of f * ?mn \<le> INT_MAX" using acc by (simp add: accepted_lattice_def)
  have "atoms_of f * 1 \<le> atoms_of f * ?mn" using a0 c(9) by (intro mult_left_mono) simp_all
  then show "atoms_of f \<le> INT_MAX" using m by simp
  show "0 < atoms_of f * ?mn" using a0 c(9) by simp
  show "0 < ?No * ?mn" using c(8,9) by simp
  have "?No * ?mn \<le> atoms_of f * ?mn" using le c(9) by (intro mult_right_mono) simp_all
  then show "?No * ?mn \<le> INT_MAX" using m by simp
qed

lemma checked_int_ok: "0 \<le> v \<Longrightarrow> v \<le> INT_MAX \<Longrightarrow> checked_int v = Inr v"
  by (simp add: checked_int_def INT_MAX_def)

lemma build_lattice_ok:
  assumes acc: "accepted_lattice f"
  shows "\<exists>mdl. build_lattice p f = Inr mdl
     \<and> number_of_atoms mdl = atoms_of f \<and> max_neighbor mdl = max_neighbor_in f
     \<and> number_of_pairs mdl = atoms_of f * max_neighbor_in f
     \<and> length (neighbor_number mdl) = nat (atoms_of f)
     \<and> length (neighbor_list mdl) = nat (atoms_of f * max_neighbor_in f)
     \<and> length (hopping_real mdl) = nat (atoms_of f * max_neighbor_in f)
     \<and> length (hopping_imag mdl) = nat (atoms_of f * max_neighbor_in f)
     \<and> length (xx mdl) = nat (atoms_of f * max_neighbor_in f)
     \<and> (\<forall>nx ny nz m. in_lattice f nx ny nz m \<longrightarrow> atom_built f mdl nx ny nz m)"
proof -
  let ?N = "atoms_of f" and ?mn = "max_neighbor_in f" and ?No = "N_orbital f"
  note sz = accepted_sizes[OF acc]
  note c = accepted_checks[OF acc]
  have chk: "check_lattice f = Inr ()" using acc by (simp add: accepted_lattice_def)
  have ci: "checked_int ?N = Inr ?N" "checked_int (?N * ?mn) = Inr (?N * ?mn)"
    "checked_int (?No * ?mn) = Inr (?No * ?mn)"
    using sz by (simp_all add: checked_int_ok)
  have N0: "0 \<le> ?N" "0 \<le> ?N * ?mn" using sz by simp_all
  have pot: "for_loop 0 ?N (\<lambda>n pot. wr pot n 0) (replicate (nat ?N) None)
             = Inr (replicate (nat ?N) (Some (0::real)))"
    by (rule fill_loop[OF N0(1)]) simp
  define box where "box = map (\<lambda>d. axis (lattice_constant f) d * real_of_int (axis (N_cell f) d))
                            [0, 1, 2]"
  define coordinates :: "real array" where
    "coordinates = (if has_charged_impurities p then replicate (nat ?N) (Some 0) else [])"
  define m0 where "m0 = \<lparr>number_of_atoms = ?N, max_neighbor = ?mn,
                number_of_pairs = ?N * ?mn, neighbor_number = replicate (nat ?N) None,
                neighbor_list = replicate (nat (?N * ?mn)) None,
                hopping_real = replicate (nat (?N * ?mn)) None,
                hopping_imag = replicate (nat (?N * ?mn)) None,
                xx = replicate (nat (?N * ?mn)) None,
                potential = replicate (nat ?N) (Some 0),
                x_atom = coordinates, y_atom = coordinates, z_atom = coordinates,
                pbc = map (axis (pbc_flags f)) [0, 1, 2], box_length = box,
                volume = box ! 0 * box ! 1 * box ! 2\<rparr>"
  have it: "initial_tables p f m0"
    by (simp add: initial_tables_def m0_def coordinates_def)
  from read_positions_ok[OF acc, of "replicate (nat ?No) (Some 0)" "replicate (nat ?No) (Some 0)"
      "replicate (nat ?No) (Some 0)"]
  obtain xc yc zc where rp: "read_positions f (replicate (nat ?No) (Some 0),
      replicate (nat ?No) (Some 0), replicate (nat ?No) (Some 0)) = Inr (xc, yc, zc)"
    and ca: "cell_arrays f xc yc zc ?No" by auto
  from read_hoppings_ok[OF acc, of "replicate (nat ?No) (Some 0)"
      "replicate 6 (replicate (nat (?No * ?mn)) (Some 0))"]
  obtain noh tbl where rh: "read_hoppings f (replicate (nat ?No) (Some 0),
        replicate 6 (replicate (nat (?No * ?mn)) (Some 0))) = Inr (noh, tbl)"
    and noh: "length noh = nat ?No"
      "\<forall>m. 0 \<le> m \<and> m < ?No \<longrightarrow> slot noh m = Some (hop_count f m)"
    and ht: "hopping_table f tbl ?No 0"
    by auto
  from expand_cells_ok[OF acc ht ca noh it]
  obtain mdl where ex: "expand_cells p f xc yc zc noh tbl m0 = Inr mdl"
    and inv: "expand_inv f m0 ?N mdl" by blast
  have b: "build_lattice p f = Inr mdl"
    unfolding build_lattice_def
    using N0 ex[unfolded m0_def box_def coordinates_def]
    by (simp add: chk ci atoms_of_def[symmetric] new_array_ok pot rp rh Let_def)
  have fr: "lattice_frame m0 mdl" using inv by (simp add: expand_inv_def)
  have built: "atom_built f mdl nx ny nz m" if "in_lattice f nx ny nz m" for nx ny nz m
    using inv that flat_index_bounds(2)[OF that] unfolding expand_inv_def by blast
  show ?thesis
    using b fr built by (intro exI[of _ mdl]) (simp add: lattice_frame_def m0_def)
qed

lemma div_bound:
  fixes n a b :: int
  assumes "0 \<le> n" "n < a * b" "0 < b"
  shows "0 \<le> n div b" and "n div b < a"
proof -
  show "0 \<le> n div b" using assms by (simp add: pos_imp_zdiv_nonneg_iff)
  show "n div b < a"
  proof (rule ccontr)
    assume "\<not> n div b < a"
    then have "a \<le> n div b" by simp
    then have "a * b \<le> (n div b) * b" using assms(3) by (intro mult_right_mono) simp_all
    moreover have "n div b * b + n mod b = n" by (rule div_mult_mod_eq)
    moreover have "0 \<le> n mod b" using assms(3) by simp
    ultimately show False using assms(2) by linarith
  qed
qed

lemma flat_index_surj:
  assumes acc: "accepted_lattice f" and n: "0 \<le> n" "n < atoms_of f"
  shows "\<exists>nx ny nz m. in_lattice f nx ny nz m \<and> flat_index f nx ny nz m = n"
proof -
  let ?Nx = "axis (N_cell f) 0" and ?Ny = "axis (N_cell f) 1" and ?Nz = "axis (N_cell f) 2"
  let ?No = "N_orbital f"
  note c = accepted_checks[OF acc]
  define q1 where "q1 = n div ?No"
  define q2 where "q2 = q1 div ?Nz"
  define q3 where "q3 = q2 div ?Ny"
  have e: "atoms_of f = ((?Nx * ?Ny) * ?Nz) * ?No"
    by (simp add: atoms_of_def mult.commute mult.left_commute)
  have b1: "0 \<le> q1" "q1 < (?Nx * ?Ny) * ?Nz"
    unfolding q1_def using div_bound[OF n(1) _ c(8), of "(?Nx * ?Ny) * ?Nz"] n(2) e by simp_all
  have b2: "0 \<le> q2" "q2 < ?Nx * ?Ny"
    unfolding q2_def using div_bound[OF b1 c(3)] by simp_all
  have b3: "0 \<le> q3" "q3 < ?Nx"
    unfolding q3_def using div_bound[OF b2 c(2)] by simp_all
  have il: "in_lattice f q3 (q2 mod ?Ny) (q1 mod ?Nz) (n mod ?No)"
    using b3 c(2,3,8) by (simp add: in_lattice_def)
  have e3: "q3 * ?Ny + q2 mod ?Ny = q2" unfolding q3_def by (rule div_mult_mod_eq)
  have e2: "q2 * ?Nz + q1 mod ?Nz = q1" unfolding q2_def by (rule div_mult_mod_eq)
  have e1: "q1 * ?No + n mod ?No = n" unfolding q1_def by (rule div_mult_mod_eq)
  have "flat_index f q3 (q2 mod ?Ny) (q1 mod ?Nz) (n mod ?No) = n"
    unfolding flat_index_def e3 e2 e1 ..
  with il show ?thesis by blast
qed

lemma single_hop_accepted:
  assumes "1 \<le> mn" "4 * mn \<le> INT_MAX" "0 < ax" "0 < ay" "0 < az"
  shows "accepted_lattice (single_hop_lattice mn (ax, ay, az) pos)"
  using assms
  by (simp add: accepted_lattice_def single_hop_lattice_def check_lattice_def axis_def
      atoms_of_def hop_count_def entry_row_def)

lemma single_hop_not_skipped:
  "\<not> hop_skipped (single_hop_lattice mn a pos) nx ny nz e"
  by (simp add: hop_skipped_def single_hop_lattice_def axis_def Let_def)

lemma single_hop_emitted:
  "emitted (single_hop_lattice mn a pos) nx ny nz 0 = [(1, 0, 0, 0, 1, 0)]"
  by (simp add: emitted_def single_hop_not_skipped) (simp add: single_hop_lattice_def)

lemma single_hop_cell:
  assumes b: "build_lattice p (single_hop_lattice mn a pos) = Inr mdl"
    and built: "\<And>nx ny nz m. in_lattice (single_hop_lattice mn a pos) nx ny nz m \<Longrightarrow>
        atom_built (single_hop_lattice mn a pos) mdl nx ny nz m"
    and mn: "max_neighbor mdl = mn"
    and c: "0 \<le> nx" "nx < 2" "0 \<le> ny" "ny < 2"
  shows "slot (neighbor_number mdl) (2 * nx + ny) = Some 1"
    and "slot (neighbor_list mdl) ((2 * nx + ny) * mn) = Some (find_index (1 + nx) ny 0 2 2 1 0 1)"
proof -
  let ?f = "single_hop_lattice mn a pos"
  have il: "in_lattice ?f nx ny 0 0"
    using c by (simp add: in_lattice_def single_hop_lattice_def axis_def)
  have fl: "flat_index ?f nx ny 0 0 = 2 * nx + ny"
    by (simp add: flat_index_def single_hop_lattice_def axis_def)
  from built[OF il] have nn: "slot (neighbor_number mdl) (2 * nx + ny) = Some 1"
    and rw: "row mdl (2 * nx + ny) 1 = [hop_cells ?f nx ny 0 0 (1, 0, 0, 0, 1, 0)]"
    by (simp_all add: atom_built_def fl single_hop_emitted)
  show "slot (neighbor_number mdl) (2 * nx + ny) = Some 1" by fact
  from rw have "fst (cells mdl ((2 * nx + ny) * mn)) = fst (hop_cells ?f nx ny 0 0 (1, 0, 0, 0, 1, 0))"
    by (simp add: row_def mn)
  then show "slot (neighbor_list mdl) ((2 * nx + ny) * mn) = Some (find_index (1 + nx) ny 0 2 2 1 0 1)"
    by (simp add: cells_def hop_cells_def entry_row_def single_hop_lattice_def axis_def)
qed

section \<open>Claims on the lattice\<close>

text \<open>
  Claim C6. For every accepted lattice file the expansion returns a model with
  \<^verbatim>\<open>number_of_atoms = N_orbital * Nx * Ny * Nz\<close>, before any vacancy is removed, and
  \<^verbatim>\<open>neighbor_number[n]\<close> is between 0 and \<^verbatim>\<open>max_neighbor\<close> for every atom \<open>n\<close>.
\<close>

theorem build_lattice_atoms_and_neighbors:
  assumes "accepted_lattice f"
  shows "\<exists>mdl. build_lattice p f = Inr mdl
     \<and> number_of_atoms mdl
         = N_orbital f * axis (N_cell f) 0 * axis (N_cell f) 1 * axis (N_cell f) 2
     \<and> max_neighbor mdl = max_neighbor_in f
     \<and> (\<forall>n \<in> {0..<number_of_atoms mdl}.
           \<exists>c. slot (neighbor_number mdl) n = Some c \<and> 0 \<le> c \<and> c \<le> max_neighbor mdl)"
proof -
  from build_lattice_ok[OF assms, of p]
  obtain mdl where b: "build_lattice p f = Inr mdl"
    and na: "number_of_atoms mdl = atoms_of f" and mn: "max_neighbor mdl = max_neighbor_in f"
    and built: "\<And>nx ny nz m. in_lattice f nx ny nz m \<Longrightarrow> atom_built f mdl nx ny nz m"
    by blast
  have "\<exists>c. slot (neighbor_number mdl) n = Some c \<and> 0 \<le> c \<and> c \<le> max_neighbor mdl"
    if n: "0 \<le> n" "n < atoms_of f" for n
  proof -
    from flat_index_surj[OF assms n] obtain nx ny nz m where
      c: "in_lattice f nx ny nz m" and e: "flat_index f nx ny nz m = n" by blast
    have m: "0 \<le> m" "m < N_orbital f" using c by (simp_all add: in_lattice_def)
    have "slot (neighbor_number mdl) n = Some (int (length (emitted f nx ny nz m)))"
      using built[OF c] by (simp add: atom_built_def e)
    moreover have "int (length (emitted f nx ny nz m)) \<le> max_neighbor mdl"
      using length_emitted[OF assms m] mn by simp
    ultimately show ?thesis by simp
  qed
  then show ?thesis using b na mn by (intro exI[of _ mdl]) (simp add: atoms_of_def)
qed

theorem build_lattice_atoms_and_neighbors_witness:
  "accepted_lattice example_lattice
   \<and> (\<exists>mdl. build_lattice example_parameters example_lattice = Inr mdl
     \<and> number_of_atoms mdl
         = N_orbital example_lattice * axis (N_cell example_lattice) 0
           * axis (N_cell example_lattice) 1 * axis (N_cell example_lattice) 2
     \<and> max_neighbor mdl = max_neighbor_in example_lattice
     \<and> (\<forall>n \<in> {0..<number_of_atoms mdl}.
           \<exists>c. slot (neighbor_number mdl) n = Some c \<and> 0 \<le> c \<and> c \<le> max_neighbor mdl))"
proof -
  have h: "accepted_lattice example_lattice"
    unfolding example_lattice_def by (rule single_hop_accepted) (simp_all add: INT_MAX_def)
  from build_lattice_atoms_and_neighbors[OF h, of example_parameters] h
  show ?thesis by blast
qed

text \<open>
  Claim C1, as amended. For one orbital, extents 2 x 2 x 1, three periodic axes, transport
  along x and the single hopping entry \<open>(1, 0, 0)\<close> to orbital 0 with amplitude 1, whatever
  \<^verbatim>\<open>max_neighbor\<close>, the lattice constants and the position of the orbital are, the
  expansion gives \<^verbatim>\<open>number_of_atoms = 4\<close> and \<^verbatim>\<open>neighbor_number[n] = 1\<close> for every atom \<open>n\<close>:
  its one neighbour is the atom in the +x direction, wrapped around the lattice, and no hop
  is skipped. The template has no entry for the -x direction and the code adds none.
\<close>

theorem single_hop_lattice_neighbors:
  assumes "1 \<le> mn" and "4 * mn \<le> INT_MAX" and "0 < ax" and "0 < ay" and "0 < az"
  shows "\<exists>mdl. build_lattice p (single_hop_lattice mn (ax, ay, az) pos) = Inr mdl
     \<and> (\<not> has_vacancy_disorder p \<and> \<not> has_anderson_disorder p \<and> \<not> has_charged_impurities p
          \<longrightarrow> initialize_lattice_model p (Some (single_hop_lattice mn (ax, ay, az) pos)) g
              = Inr (mdl, g))
     \<and> number_of_atoms mdl = 4
     \<and> (\<forall>n \<in> {0..<4}. slot (neighbor_number mdl) n = Some 1
           \<and> slot (neighbor_list mdl) (n * mn) = Some ((n + 2) mod 4))
     \<and> (\<forall>nx \<in> {0..<2}. \<forall>ny \<in> {0..<2}.
           \<not> hop_skipped (single_hop_lattice mn (ax, ay, az) pos) nx ny 0 (1, 0, 0, 0, 1, 0))"
proof -
  let ?f = "single_hop_lattice mn (ax, ay, az) pos"
  have acc: "accepted_lattice ?f" by (rule single_hop_accepted[OF assms])
  from build_lattice_ok[OF acc, of p]
  obtain mdl where b: "build_lattice p ?f = Inr mdl"
    and na: "number_of_atoms mdl = atoms_of ?f" and mn: "max_neighbor mdl = max_neighbor_in ?f"
    and built: "\<And>nx ny nz m. in_lattice ?f nx ny nz m \<Longrightarrow> atom_built ?f mdl nx ny nz m"
    by blast
  have mn': "max_neighbor mdl = mn" using mn by (simp add: single_hop_lattice_def)
  note cell = single_hop_cell[OF b built mn']
  have n4: "number_of_atoms mdl = 4" using na by (simp add: atoms_of_def single_hop_lattice_def axis_def)
  have atoms: "slot (neighbor_number mdl) n = Some 1
           \<and> slot (neighbor_list mdl) (n * mn) = Some ((n + 2) mod 4)"
    if "n \<in> {0..<4}" for n
  proof -
    from that have "n = 0 \<or> n = 1 \<or> n = 2 \<or> n = 3" by auto
    then show ?thesis
      using cell[of 0 0] cell[of 0 1] cell[of 1 0] cell[of 1 1]
      by (auto simp: find_index_def)
  qed
  have init: "initialize_lattice_model p (Some ?f) g = Inr (mdl, g)"
    if "\<not> has_vacancy_disorder p \<and> \<not> has_anderson_disorder p \<and> \<not> has_charged_impurities p"
    using that b by (simp add: initialize_lattice_model_def)
  show ?thesis
    using b init n4 atoms single_hop_not_skipped
    by (intro exI[of _ mdl]) blast
qed

theorem single_hop_lattice_neighbors_witness:
  "(1::int) \<le> 2 \<and> 4 * (2::int) \<le> INT_MAX \<and> (0::real) < 1 \<and> (0::real) < 1 \<and> (0::real) < 1
   \<and> (\<exists>mdl. build_lattice example_parameters (single_hop_lattice 2 (1, 1, 1) (0, 0, 0)) = Inr mdl
     \<and> (\<not> has_vacancy_disorder example_parameters \<and> \<not> has_anderson_disorder example_parameters
          \<and> \<not> has_charged_impurities example_parameters
          \<longrightarrow> initialize_lattice_model example_parameters
                (Some (single_hop_lattice 2 (1, 1, 1) (0, 0, 0))) example_generator
              = Inr (mdl, example_generator))
     \<and> number_of_atoms mdl = 4
     \<and> (\<forall>n \<in> {0..<4}. slot (neighbor_number mdl) n = Some 1
           \<and> slot (neighbor_list mdl) (n * 2) = Some ((n + 2) mod 4))
     \<and> (\<forall>nx \<in> {0..<2}. \<forall>ny \<in> {0..<2}.
           \<not> hop_skipped (single_hop_lattice 2 (1, 1, 1) (0, 0, 0)) nx ny 0 (1, 0, 0, 0, 1, 0)))"
proof -
  have h: "(1::int) \<le> 2" "4 * (2::int) \<le> INT_MAX" "(0::real) < 1" "(0::real) < 1" "(0::real) < 1"
    by (simp_all add: INT_MAX_def)
  from single_hop_lattice_neighbors[OF h, of example_parameters "(0, 0, 0)" example_generator] h
  show ?thesis by blast
qed

text \<open>Claim C1 as stated fails: with \<^verbatim>\<open>max_neighbor = 2\<close> every atom of this lattice has
  one neighbour, not two.\<close>

theorem single_hop_lattice_counterexample:
  "initialize_lattice_model example_parameters (Some example_lattice) example_generator
     = Inr (example_model, example_generator)
   \<and> number_of_atoms example_model = 4
   \<and> slot (neighbor_number example_model) 0 = Some 1
   \<and> \<not> (\<forall>n \<in> {0..<4}. slot (neighbor_number example_model) n = Some 2)"
proof -
  have a: "initialize_lattice_model example_parameters (Some example_lattice) example_generator
     = Inr (example_model, example_generator)"
    by (simp add: initialize_lattice_model_def build_example_lattice) (simp add: example_parameters_def)
  have b: "slot (neighbor_number example_model) 0 = Some 1"
    by (simp add: slot_def example_model_def)
  then have "\<not> (\<forall>n \<in> {0..<4}. slot (neighbor_number example_model) n = Some 2)"
    by (auto intro!: bexI[of _ 0])
  with a b show ?thesis by simp
qed

text \<open>
  Claim C2 at transport along y: two orbitals at \<open>(0, 0, 0)\<close> and \<open>(1, 2, 0)\<close> in one cell and
  a hop from the first to the second. The code stores the displacement 1, the difference
  of the x positions; the displacement along the transport axis is 2.
\<close>

theorem xx_on_y_transport:
  "(case build_lattice example_parameters y_transport_lattice of
      Inl e \<Rightarrow> False | Inr mdl \<Rightarrow> slot (xx mdl) 0 = Some 1)
   \<and> claimed_displacement y_transport_lattice 0 (0, 0, 0, 1, 1, 0) = 2"
  by code_simp

text \<open>
  Claim C3 at the amplitude \<open>-2.7 + 0.5 i\<close>: the code stores \<open>-2\<close> and \<open>0\<close>, the two parts
  after their conversion to \<^verbatim>\<open>int\<close>.
\<close>

theorem hopping_amplitude_truncated:
  "case build_lattice example_parameters real_hopping_lattice of
     Inl e \<Rightarrow> False
   | Inr mdl \<Rightarrow> slot (hopping_real mdl) 0 = Some (- 2) \<and> slot (hopping_imag mdl) 0 = Some 0"
  by code_simp

section \<open>Vacancy removal on the table of a lattice file\<close>

text \<open>The table that the expansion builds from an accepted file with its hops in reach is
  well-formed, so that the removal of \<open>0 < k < N\<close> vacancies from it returns.\<close>

lemma wrap_once_range:
  assumes "0 \<le> n" "n < N"
    and "(0 \<le> e + n \<and> e + n < N) \<or> \<bar>e\<bar> \<le> N"
  shows "0 \<le> wrap_once N (e + n) \<and> wrap_once N (e + n) < N"
  using assms by (auto simp: wrap_once_def Let_def)

lemma find_index_wrap:
  "find_index nx ny nz (axis (N_cell f) 0) (axis (N_cell f) 1) (axis (N_cell f) 2) m (N_orbital f)
   = flat_index f (wrap_once (axis (N_cell f) 0) nx) (wrap_once (axis (N_cell f) 1) ny)
       (wrap_once (axis (N_cell f) 2) nz) m"
  by (simp add: find_index_def flat_index_def wrap_once_def Let_def)

lemma hop_target_in_range:
  assumes acc: "accepted_lattice f" and reach: "hops_in_reach f"
    and c: "in_lattice f nx ny nz m" and e: "e \<in> set (emitted f nx ny nz m)"
  shows "\<exists>t. fst (hop_cells f nx ny nz m e) = Some t \<and> 0 \<le> t \<and> t < atoms_of f"
proof -
  let ?Nx = "axis (N_cell f) 0" and ?Ny = "axis (N_cell f) 1" and ?Nz = "axis (N_cell f) 2"
  note k = accepted_checks[OF acc]
  from c have r: "0 \<le> nx" "nx < ?Nx" "0 \<le> ny" "ny < ?Ny" "0 \<le> nz" "nz < ?Nz"
    "0 \<le> m" "m < N_orbital f" by (simp_all add: in_lattice_def)
  from e have es: "e \<in> set (hoppings f ! nat m)" and ns: "\<not> hop_skipped f nx ny nz e"
    by (simp_all add: emitted_def)
  have mm: "m \<in> {0..<N_orbital f}" using r by simp
  from reach mm es have rc:
    "axis (pbc_flags f) 0 = 1 \<longrightarrow> \<bar>entry_row 0 e\<bar> \<le> ?Nx"
    "axis (pbc_flags f) 1 = 1 \<longrightarrow> \<bar>entry_row 1 e\<bar> \<le> ?Ny"
    "axis (pbc_flags f) 2 = 1 \<longrightarrow> \<bar>entry_row 2 e\<bar> \<le> ?Nz"
    unfolding hops_in_reach_def by blast+
  from acc mm es have tg: "0 \<le> entry_row 3 e" "entry_row 3 e < N_orbital f"
    unfolding accepted_lattice_def by blast+
  have x: "(0 \<le> entry_row 0 e + nx \<and> entry_row 0 e + nx < ?Nx) \<or> \<bar>entry_row 0 e\<bar> \<le> ?Nx"
    using ns rc(1) k(4) by (auto simp: hop_skipped_def Let_def)
  have y: "(0 \<le> entry_row 1 e + ny \<and> entry_row 1 e + ny < ?Ny) \<or> \<bar>entry_row 1 e\<bar> \<le> ?Ny"
    using ns rc(2) k(5) by (auto simp: hop_skipped_def Let_def)
  have z: "(0 \<le> entry_row 2 e + nz \<and> entry_row 2 e + nz < ?Nz) \<or> \<bar>entry_row 2 e\<bar> \<le> ?Nz"
    using ns rc(3) k(6) by (auto simp: hop_skipped_def Let_def)
  have il: "in_lattice f (wrap_once ?Nx (entry_row 0 e + nx)) (wrap_once ?Ny (entry_row 1 e + ny))
              (wrap_once ?Nz (entry_row 2 e + nz)) (entry_row 3 e)"
    using wrap_once_range[OF r(1,2) x] wrap_once_range[OF r(3,4) y] wrap_once_range[OF r(5,6) z] tg
    by (simp add: in_lattice_def)
  have "fst (hop_cells f nx ny nz m e)
        = Some (flat_index f (wrap_once ?Nx (entry_row 0 e + nx)) (wrap_once ?Ny (entry_row 1 e + ny))
              (wrap_once ?Nz (entry_row 2 e + nz)) (entry_row 3 e))"
    by (simp add: hop_cells_def find_index_wrap)
  with flat_index_bounds[OF il] show ?thesis by simp
qed

lemma build_lattice_wf:
  assumes acc: "accepted_lattice f" and reach: "hops_in_reach f"
  shows "\<exists>mdl. build_lattice p f = Inr mdl \<and> wf_model mdl \<and> number_of_atoms mdl = atoms_of f"
proof -
  from build_lattice_ok[OF acc, of p]
  obtain mdl where b: "build_lattice p f = Inr mdl"
    and na: "number_of_atoms mdl = atoms_of f" and mn: "max_neighbor mdl = max_neighbor_in f"
    and np: "number_of_pairs mdl = atoms_of f * max_neighbor_in f"
    and ln: "length (neighbor_number mdl) = nat (atoms_of f)"
      "length (neighbor_list mdl) = nat (atoms_of f * max_neighbor_in f)"
      "length (hopping_real mdl) = nat (atoms_of f * max_neighbor_in f)"
      "length (hopping_imag mdl) = nat (atoms_of f * max_neighbor_in f)"
      "length (xx mdl) = nat (atoms_of f * max_neighbor_in f)"
    and built: "\<And>nx ny nz m. in_lattice f nx ny nz m \<Longrightarrow> atom_built f mdl nx ny nz m"
    by blast
  note k = accepted_checks[OF acc] and sz = accepted_sizes[OF acc]
  have rows: "case slot (neighbor_number mdl) n of
             None \<Rightarrow> False
           | Some c \<Rightarrow> 0 \<le> c \<and> c \<le> max_neighbor mdl
               \<and> (\<forall>m \<in> {0..<c}.
                     case slot (neighbor_list mdl) (n * max_neighbor mdl + m) of
                       None \<Rightarrow> False
                     | Some t \<Rightarrow> 0 \<le> t \<and> t < number_of_atoms mdl)"
    if n: "n \<in> {0..<number_of_atoms mdl}" for n
  proof -
    from n na have n': "0 \<le> n" "n < atoms_of f" by simp_all
    from flat_index_surj[OF acc n'] obtain nx ny nz m where
      c: "in_lattice f nx ny nz m" and e: "flat_index f nx ny nz m = n" by blast
    have m: "0 \<le> m" "m < N_orbital f" using c by (simp_all add: in_lattice_def)
    let ?E = "emitted f nx ny nz m"
    have cnt: "slot (neighbor_number mdl) n = Some (int (length ?E))"
      and rw: "row mdl n (length ?E) = map (hop_cells f nx ny nz m) ?E"
      using built[OF c] by (simp_all add: atom_built_def e)
    have le: "int (length ?E) \<le> max_neighbor mdl"
      using length_emitted[OF acc m] mn by simp
    have tg: "case slot (neighbor_list mdl) (n * max_neighbor mdl + i) of
                       None \<Rightarrow> False
                     | Some t \<Rightarrow> 0 \<le> t \<and> t < number_of_atoms mdl"
      if i: "i \<in> {0..<int (length ?E)}" for i
    proof -
      from i have i0: "0 \<le> i" "i < int (length ?E)" by simp_all
      then have i': "nat i < length ?E" "0 \<le> i" by linarith+
      have "row mdl n (length ?E) ! nat i = hop_cells f nx ny nz m (?E ! nat i)"
        using i' by (simp add: rw)
      then have "cells mdl (n * max_neighbor mdl + i) = hop_cells f nx ny nz m (?E ! nat i)"
        using i' by (simp add: row_def)
      then have "fst (cells mdl (n * max_neighbor mdl + i))
                 = fst (hop_cells f nx ny nz m (?E ! nat i))"
        by simp
      then have s: "slot (neighbor_list mdl) (n * max_neighbor mdl + i)
                 = fst (hop_cells f nx ny nz m (?E ! nat i))"
        by (simp add: cells_def)
      have "?E ! nat i \<in> set ?E" using i'(1) by (rule nth_mem)
      from hop_target_in_range[OF acc reach c this] show ?thesis
        using s na by auto
    qed
    show ?thesis using cnt le tg by simp
  qed
  have "wf_model mdl"
    unfolding wf_model_def using na mn np ln k(9) sz(1) rows by simp
  with b na show ?thesis by blast
qed

lemma vacancies_on_built_lattice:
  assumes acc: "accepted_lattice f" and reach: "hops_in_reach f"
    and dis: "has_vacancy_disorder p" "\<not> has_anderson_disorder p" "\<not> has_charged_impurities p"
    and k: "0 < number_of_vacancies p" "number_of_vacancies p < atoms_of f"
  shows "\<exists>mdl' g'. initialize_lattice_model p (Some f) g = Inr (mdl', g')
     \<and> number_of_atoms mdl' = atoms_of f - number_of_vacancies p
     \<and> (\<forall>a \<in> {0..<number_of_atoms mdl'}. \<exists>c. slot (neighbor_number mdl') a = Some c
          \<and> (\<forall>m \<in> {0..<c}. \<exists>t. slot (neighbor_list mdl') (a * max_neighbor mdl' + m) = Some t
                \<and> 0 \<le> t \<and> t < number_of_atoms mdl'))"
proof -
  from build_lattice_wf[OF acc reach, of p] obtain mdl where
    b: "build_lattice p f = Inr mdl" and wf: "wf_model mdl" and na: "number_of_atoms mdl = atoms_of f"
    by blast
  have k': "number_of_vacancies p < number_of_atoms mdl" using k(2) na by simp
  from add_vacancies_atoms_and_targets[OF wf k(1) k', of g]
  obtain mdl' g' where r: "add_vacancies p mdl g = Inr (mdl', g')"
    and n: "number_of_atoms mdl' = number_of_atoms mdl - number_of_vacancies p"
    and t: "\<forall>a \<in> {0..<number_of_atoms mdl'}. \<exists>c. slot (neighbor_number mdl') a = Some c
          \<and> (\<forall>m \<in> {0..<c}. \<exists>t. slot (neighbor_list mdl') (a * max_neighbor mdl' + m) = Some t
                \<and> 0 \<le> t \<and> t < number_of_atoms mdl')"
    by blast
  have i: "initialize_lattice_model p (Some f) g = Inr (mdl', g')"
    using b r dis by (simp add: initialize_lattice_model_def bnd_def)
  show ?thesis
    by (rule exI[of _ mdl'], rule exI[of _ g']) (use i n na t in simp)
qed

lemma example_lattice_accepted: "accepted_lattice example_lattice"
  unfolding example_lattice_def by (rule single_hop_accepted) (simp_all add: INT_MAX_def)

lemma example_lattice_in_reach: "hops_in_reach example_lattice"
  by code_simp

lemma vacancies_on_example_lattice:
  "\<exists>mdl' g'. initialize_lattice_model one_vacancy (Some example_lattice) example_generator
       = Inr (mdl', g')
     \<and> number_of_atoms mdl' = 3
     \<and> (\<forall>a \<in> {0..<number_of_atoms mdl'}. \<exists>c. slot (neighbor_number mdl') a = Some c
          \<and> (\<forall>m \<in> {0..<c}. \<exists>t. slot (neighbor_list mdl') (a * max_neighbor mdl' + m) = Some t
                \<and> 0 \<le> t \<and> t < number_of_atoms mdl'))"
proof -
  have a: "atoms_of example_lattice = 4" by code_simp
  have d: "has_vacancy_disorder one_vacancy" "\<not> has_anderson_disorder one_vacancy"
    "\<not> has_charged_impurities one_vacancy"
    by (simp_all add: one_vacancy_def example_parameters_def)
  have k: "0 < number_of_vacancies one_vacancy"
    "number_of_vacancies one_vacancy < atoms_of example_lattice"
    by (simp_all add: a)
  from vacancies_on_built_lattice[OF example_lattice_accepted example_lattice_in_reach d k,
      of example_generator]
  show ?thesis by (simp add: a)
qed

text \<open>The two files with a far hop pass the checks and meet the bounds of an accepted file,
  and their hops are not in reach.\<close>

lemma far_hop_accepted: "accepted_lattice far_hop_lattice"
  by code_simp

lemma back_hop_accepted: "accepted_lattice back_hop_lattice"
  by code_simp

lemma far_hop_out_of_reach: "\<not> hops_in_reach far_hop_lattice"
  by code_simp

lemma far_hop_run:
  "case build_lattice one_vacancy far_hop_lattice of
     Inl e \<Rightarrow> False
   | Inr mdl \<Rightarrow>
       number_of_atoms mdl = 4
       \<and> neighbor_number mdl = [Some 1, Some 1, Some 1, Some 1]
       \<and> neighbor_list mdl = [Some 2, Some 3, Some 4, Some 5]
       \<and> (case add_vacancies one_vacancy mdl example_generator of
            Inl e \<Rightarrow> e = OutOfBounds 4 4 | Inr r \<Rightarrow> False)"
  by code_simp

lemma back_hop_run:
  "case build_lattice one_vacancy back_hop_lattice of
     Inl e \<Rightarrow> False
   | Inr mdl \<Rightarrow>
       number_of_atoms mdl = 4
       \<and> neighbor_number mdl = [Some 1, Some 1, Some 1, Some 1]
       \<and> neighbor_list mdl = [Some (- 2), Some (- 1), Some 0, Some 1]
       \<and> (case add_vacancies one_vacancy mdl example_generator of
            Inl e \<Rightarrow> e = OutOfBounds (- 2) 4 | Inr r \<Rightarrow> False)"
  by code_simp

section \<open>Claims on the vacancies\<close>

text \<open>
  Claim C4. For every pristine model with \<open>N\<close> atoms and \<open>0 < k < N\<close> vacancies, after
  \<^verbatim>\<open>add_vacancies\<close> the model has \<open>N - k\<close> atoms and every target of the rebuilt table lies in
  \<open>[0, N - k)\<close>. The code does not meet this on the table of the file with the hop
  \<open>(3, 0, 0)\<close>: the file passes every check of the source and the parameters are accepted
  with one vacancy; \<^verbatim>\<open>find_index\<close> wraps a cell index once only (lines 257 and 258), and the
  table of the 4 atoms holds the targets 2, 3, 4 and 5. \<^verbatim>\<open>add_vacancies\<close> then reads
  \<^verbatim>\<open>is_vacancy[4]\<close> (line 168), outside the array of 4 marks, and no model of 3 atoms comes
  out of it.
\<close>

theorem add_vacancies_far_hop:
  "check_lattice far_hop_lattice = Inr ()
   \<and> verify_parameters one_vacancy = Inr one_vacancy
   \<and> 0 < number_of_vacancies one_vacancy \<and> number_of_vacancies one_vacancy < 4
   \<and> (\<exists>mdl. build_lattice one_vacancy far_hop_lattice = Inr mdl
        \<and> number_of_atoms mdl = 4
        \<and> neighbor_number mdl = [Some 1, Some 1, Some 1, Some 1]
        \<and> neighbor_list mdl = [Some 2, Some 3, Some 4, Some 5]
        \<and> add_vacancies one_vacancy mdl example_generator = Inl (OutOfBounds 4 4))
   \<and> initialize_lattice_model one_vacancy (Some far_hop_lattice) example_generator
       = Inl (OutOfBounds 4 4)"
proof -
  have a: "check_lattice far_hop_lattice = Inr ()" by code_simp
  have v: "verify_parameters one_vacancy = Inr one_vacancy" by code_simp
  from far_hop_run obtain mdl where
    b: "build_lattice one_vacancy far_hop_lattice = Inr mdl"
    and m: "number_of_atoms mdl = 4" "neighbor_number mdl = [Some 1, Some 1, Some 1, Some 1]"
      "neighbor_list mdl = [Some 2, Some 3, Some 4, Some 5]"
    and r: "add_vacancies one_vacancy mdl example_generator = Inl (OutOfBounds 4 4)"
    by (auto split: sum.splits)
  have i: "initialize_lattice_model one_vacancy (Some far_hop_lattice) example_generator
       = Inl (OutOfBounds 4 4)"
    using b r by (simp add: initialize_lattice_model_def bnd_def one_vacancy_def)
  from a v b m r i show ?thesis by simp
qed

text \<open>
  Claim C5. After \<^verbatim>\<open>add_vacancies\<close>, every surviving atom has its pristine neighbour count
  minus the number of its neighbours marked vacant, its surviving hops in the order of the
  pristine table, and at most \<^verbatim>\<open>max_neighbor\<close> neighbours. The code does not meet this on the
  table of the file with the hop \<open>(-3, 0, 0)\<close>, which holds the targets -2, -1, 0 and 1. With
  one vacancy the marks are 0, 1, 0, 0: atom 0 survives, it has one pristine neighbour and
  none of the marked atoms is its neighbour, so that its new count should be 1.
  \<^verbatim>\<open>add_vacancies\<close> reads \<^verbatim>\<open>is_vacancy[-2]\<close> (line 168) for it, outside the array of marks, and
  returns no table.
\<close>

theorem add_vacancies_back_hop:
  "check_lattice back_hop_lattice = Inr ()
   \<and> specify_vacancies 1 (replicate (nat 4) None) 4 example_generator
       = Inr ([Some 0, Some 1, Some 0, Some 0], skip_draws 4 example_generator)
   \<and> (\<exists>mdl. build_lattice one_vacancy back_hop_lattice = Inr mdl
        \<and> number_of_atoms mdl = 4
        \<and> neighbor_number mdl = [Some 1, Some 1, Some 1, Some 1]
        \<and> neighbor_list mdl = [Some (- 2), Some (- 1), Some 0, Some 1]
        \<and> add_vacancies one_vacancy mdl example_generator = Inl (OutOfBounds (- 2) 4))
   \<and> initialize_lattice_model one_vacancy (Some back_hop_lattice) example_generator
       = Inl (OutOfBounds (- 2) 4)"
proof -
  have a: "check_lattice back_hop_lattice = Inr ()" by code_simp
  from back_hop_run obtain mdl where
    b: "build_lattice one_vacancy back_hop_lattice = Inr mdl"
    and m: "number_of_atoms mdl = 4" "neighbor_number mdl = [Some 1, Some 1, Some 1, Some 1]"
      "neighbor_list mdl = [Some (- 2), Some (- 1), Some 0, Some 1]"
    and r: "add_vacancies one_vacancy mdl example_generator = Inl (OutOfBounds (- 2) 4)"
    by (auto split: sum.splits)
  have i: "initialize_lattice_model one_vacancy (Some back_hop_lattice) example_generator
       = Inl (OutOfBounds (- 2) 4)"
    using b r by (simp add: initialize_lattice_model_def bnd_def one_vacancy_def)
  from a example_is_vacancy b m r i show ?thesis by simp
qed

section \<open>Claim on the charged impurities\<close>




end
